theory Spec2Isabelle
  imports Main
begin

section \<open>The \<open>bigchaindb\<close> command: shared vocabulary\<close>

text \<open>
  The development embeds \<^verbatim>\<open>bigchaindb/commands/bigchain.py\<close>. Python exceptions are
  values of \<open>exn\<close>; only the classes the module raises, catches or lets through are
  listed. \<open>SystemExit\<close> carries the message given to \<^verbatim>\<open>sys.exit\<close>.
\<close>

datatype exn =
    ZeroDivisionError
  | OverflowError
  | KeyError string
  | TypeError
  | DatabaseAlreadyExists
  | KeypairNotFoundException
  | StartupError string
  | OperationError string
  | NotImplementedError string
  | SystemExit string

text \<open>
  The control flow of one pass through the body of a \<^verbatim>\<open>while True\<close> loop: the pass
  ends normally and the loop goes on, it leaves the loop by \<^verbatim>\<open>break\<close>, or an exception
  escapes.
\<close>

datatype 'a flow = Continue 'a | Break 'a | Raise exn

section \<open>Configuration values\<close>

text \<open>
  \<^verbatim>\<open>bigchaindb.config\<close> is a dictionary of JSON-like values nested in dictionaries.
  A dictionary is an association list with distinct keys, in insertion order.
\<close>

datatype pyval =
    PNone
  | PBool bool
  | PInt int
  | PStr string
  | PList "pyval list"
  | PDict "(string \<times> pyval) list"

text \<open>Python's truth value of an object, as tested by \<^verbatim>\<open>if\<close>, \<^verbatim>\<open>not\<close> and \<^verbatim>\<open>or\<close>.\<close>

fun truthy :: "pyval \<Rightarrow> bool" where
  "truthy PNone = False"
| "truthy (PBool b) = b"
| "truthy (PInt n) = (n \<noteq> 0)"
| "truthy (PStr s) = (s \<noteq> [])"
| "truthy (PList xs) = (xs \<noteq> [])"
| "truthy (PDict kvs) = (kvs \<noteq> [])"

text \<open>Sequencing of computations that may raise: the first exception wins.\<close>

fun and_then :: "exn + 'a \<Rightarrow> ('a \<Rightarrow> exn + 'b) \<Rightarrow> exn + 'b" where
  "and_then (Inl e) f = Inl e"
| "and_then (Inr x) f = f x"

fun alist_set :: "'k \<Rightarrow> 'v \<Rightarrow> ('k \<times> 'v) list \<Rightarrow> ('k \<times> 'v) list" where
  "alist_set k v [] = [(k, v)]"
| "alist_set k v ((k', v') # kvs) =
     (if k' = k then (k, v) # kvs else (k', v') # alist_set k v kvs)"

text \<open>\<^verbatim>\<open>d[k]\<close>, \<^verbatim>\<open>d[k] = v\<close> and \<^verbatim>\<open>del d[k]\<close>.\<close>

fun getitem :: "pyval \<Rightarrow> string \<Rightarrow> exn + pyval" where
  "getitem (PDict kvs) k =
     (case map_of kvs k of None \<Rightarrow> Inl (KeyError k) | Some v \<Rightarrow> Inr v)"
| "getitem d k = Inl TypeError"

fun setitem :: "pyval \<Rightarrow> string \<Rightarrow> pyval \<Rightarrow> exn + pyval" where
  "setitem (PDict kvs) k v = Inr (PDict (alist_set k v kvs))"
| "setitem d k v = Inl TypeError"

fun delitem :: "pyval \<Rightarrow> string \<Rightarrow> exn + pyval" where
  "delitem (PDict kvs) k =
     (case map_of kvs k of
        None \<Rightarrow> Inl (KeyError k)
      | Some v \<Rightarrow> Inr (PDict (filter (\<lambda>kv. fst kv \<noteq> k) kvs)))"
| "delitem d k = Inl TypeError"

text \<open>\<^verbatim>\<open>config['keypair'][k]\<close> and \<^verbatim>\<open>config['keypair'][k] = v\<close>.\<close>

definition keypair_get :: "pyval \<Rightarrow> string \<Rightarrow> exn + pyval" where
  "keypair_get cfg k = and_then (getitem cfg ''keypair'') (\<lambda>kp. getitem kp k)"

definition keypair_set :: "pyval \<Rightarrow> string \<Rightarrow> pyval \<Rightarrow> exn + pyval" where
  "keypair_set cfg k v =
     and_then (getitem cfg ''keypair'') (\<lambda>kp.
     and_then (setitem kp k v) (\<lambda>kp'.
     setitem cfg ''keypair'' kp'))"

section \<open>The node, its backend and the outside world\<close>

text \<open>
  What the commands need of the storage backend: whether the database exists, and how
  many genesis records it holds.
\<close>

record backend =
  db_exists :: bool
  genesis :: nat

datatype admin_call =
    Set_shards int
  | Set_replicas int
  | Add_replicas "string list"
  | Remove_replicas "string list"

text \<open>
  The calls a command makes to its collaborators outside this module, in the order it
  makes them.
\<close>

datatype call =
    Setup_logging
  | Log_warning string
  | Log_info string "pyval list"
  | Generate_key_pair
  | Start_rethinkdb
  | New_Bigchain
  | Connect
  | Init_database
  | Create_genesis_block
  | Processes_start
  | Admin admin_call

record world =
  config :: pyval
  db :: backend
  stdout :: "string list"
  stderr :: "string list"
  calls :: "call list"

text \<open>
  What the collaborators answer; the commands are verified for every such answer.
  \<open>version\<close> is \<^verbatim>\<open>bigchaindb.__version__\<close>; \<open>new_key_pair\<close> is the pair
  \<open>(private, public)\<close> that \<^verbatim>\<open>crypto.generate_key_pair()\<close> returns;
  \<open>rethinkdb\<close> is the outcome of \<^verbatim>\<open>utils.start_rethinkdb()\<close>, the reason of a
  \<^verbatim>\<open>StartupError\<close> or the printed PID of the started process; \<open>admin\<close> is the outcome
  of a call of \<^verbatim>\<open>bigchaindb.backend.admin\<close>, \<open>None\<close> when it returns, else the
  exception it raises; \<open>json_dumps\<close> is \<^verbatim>\<open>json.dumps\<close> with \<^verbatim>\<open>indent=4, sort_keys=True\<close>.
\<close>

record env =
  version :: string
  new_key_pair :: "string \<times> string"
  rethinkdb :: "string + string"
  admin :: "admin_call \<Rightarrow> exn option"
  json_dumps :: "pyval \<Rightarrow> string"

definition print_out :: "string \<Rightarrow> world \<Rightarrow> world" where
  "print_out s w = w\<lparr>stdout := stdout w @ [s]\<rparr>"

definition print_err :: "string \<Rightarrow> world \<Rightarrow> world" where
  "print_err s w = w\<lparr>stderr := stderr w @ [s]\<rparr>"

definition called :: "call \<Rightarrow> world \<Rightarrow> world" where
  "called c w = w\<lparr>calls := calls w @ [c]\<rparr>"

text \<open>The calls made since the world was \<open>w\<close>.\<close>

definition new_calls :: "world \<Rightarrow> world \<Rightarrow> call list" where
  "new_calls w w' = drop (length (calls w)) (calls w')"

text \<open>
  How the process ends once the command function is done: status \<open>0\<close> when it returns;
  an exception that escapes ends the process with status \<open>1\<close>, and \<^verbatim>\<open>sys.exit(msg)\<close>
  with a string sends \<open>msg\<close> to standard error first (lines 124-128 of the source say
  so).
\<close>

definition exit_status :: "(exn + unit) \<times> world \<Rightarrow> nat" where
  "exit_status r = (case fst r of Inr u \<Rightarrow> 0 | Inl e \<Rightarrow> 1)"

definition exit_message :: "(exn + unit) \<times> world \<Rightarrow> string option" where
  "exit_message r = (case fst r of Inl (SystemExit msg) \<Rightarrow> Some msg | _ \<Rightarrow> None)"

text \<open>
  Modelled from the spec: the constructor \<^verbatim>\<open>bigchaindb.Bigchain\<close> is not among the
  sources. \<^verbatim>\<open>_run_init\<close> says of it "Try to access the keypair, throws an exception if
  it does not exist", and the spec names the failure \<open>KeypairMissing\<close>, raised when a
  persisted keypair is required and none exists. The keypair exists when both keys of
  \<^verbatim>\<open>config['keypair']\<close> are set; the constructed object holds the connection to the
  backend (\<^verbatim>\<open>b.connection\<close>), so constructing it connects.
\<close>

definition Bigchain :: "world \<Rightarrow> (exn + unit) \<times> world" where
  "Bigchain w =
     (let w1 = called New_Bigchain w in
      case and_then (keypair_get (config w1) ''public'') (\<lambda>me.
           and_then (keypair_get (config w1) ''private'') (\<lambda>me_private.
           Inr (me, me_private))) of
        Inl e \<Rightarrow> (Inl e, w1)
      | Inr (me, me_private) \<Rightarrow>
          if \<not> truthy me \<or> \<not> truthy me_private
          then (Inl KeypairNotFoundException, w1)
          else (Inr (), called Connect w1))"

section \<open>The load generator: \<open>run_load\<close> and \<open>_run_load\<close>\<close>

text \<open>
  \<^verbatim>\<open>int(a / b)\<close> for two Python integers (line 235). \<^verbatim>\<open>a / b\<close> is true division: the
  64-bit float nearest to the exact quotient, a tie going to the even mantissa; it raises
  \<^verbatim>\<open>ZeroDivisionError\<close> when \<open>b\<close> is zero and \<^verbatim>\<open>OverflowError\<close> when that float
  would be \<open>2 ^ 1024\<close> or more. \<^verbatim>\<open>int\<close> then truncates towards zero.
\<close>

text \<open>\<^verbatim>\<open>int.bit_length\<close>: the number of binary digits of a natural number.\<close>

fun bit_length :: "nat \<Rightarrow> nat" where
  "bit_length n = (if n = 0 then 0 else Suc (bit_length (n div 2)))"

declare bit_length.simps [simp del]

text \<open>The integer nearest to \<open>n / d\<close>, a tie going to the even one.\<close>

definition round_half_even :: "nat \<Rightarrow> nat \<Rightarrow> nat" where
  "round_half_even n d =
     (let q = n div d; r = n mod d in
      if 2 * r < d then q
      else if d < 2 * r then q + 1
      else if even q then q else q + 1)"

text \<open>
  The float quotient of two positive integers, as \<open>(m, p, r)\<close> standing for
  \<open>m * 2 ^ p / 2 ^ r\<close>: the exponent is chosen so that the quotient, scaled, lies
  between \<open>2 ^ 52\<close> and \<open>2 ^ 53\<close>, and the mantissa \<open>m\<close> is the scaled quotient
  rounded. The exponent range of the format is modelled at its upper end only: a quotient
  below \<open>2 ^ -1022\<close> is a subnormal float or zero, and its truncation is \<open>0\<close> either
  way.
\<close>

definition float_div :: "nat \<Rightarrow> nat \<Rightarrow> nat \<times> nat \<times> nat" where
  "float_div a b =
     (let r = bit_length b + 53;
          p = (if a * 2 ^ r < 2 ^ 53 * (b * 2 ^ bit_length a)
               then bit_length a else bit_length a + 1)
      in (round_half_even (a * 2 ^ r) (b * 2 ^ p), p, r))"

text \<open>\<^verbatim>\<open>int\<close> of that float, unless the division has overflowed.\<close>

definition float_to_int :: "nat \<times> nat \<times> nat \<Rightarrow> exn + nat" where
  "float_to_int f =
     (case f of (m, p, r) \<Rightarrow>
        if 2 ^ 1024 * 2 ^ r \<le> m * 2 ^ p then Inl OverflowError
        else Inr ((m * 2 ^ p) div 2 ^ r))"

definition py_int_truediv :: "int \<Rightarrow> int \<Rightarrow> exn + int" where
  "py_int_truediv a b =
     (if b = 0 then Inl ZeroDivisionError
      else if a = 0 then Inr 0
      else
        (case float_to_int (float_div (nat \<bar>a\<bar>) (nat \<bar>b\<bar>)) of
           Inl e \<Rightarrow> Inl e
         | Inr k \<Rightarrow> Inr (sgn a * sgn b * int k)))"

text \<open>The two options of the \<^verbatim>\<open>load\<close> subcommand, after argument parsing.\<close>

record load_args =
  count :: int
  multiprocess :: int

text \<open>
  Modelled from the spec: \<^verbatim>\<open>bigchaindb.utils.ProcessGroup\<close> is not among the sources.
  The spec calls it a fixed-size pool of parallel workers ("implicit multiprocessing via
  a process-group helper"): \<^verbatim>\<open>ProcessGroup(concurrency=n, target=f, args=a).start()\<close>
  starts \<open>n\<close> processes, each running \<open>f\<close> on the same argument tuple \<open>a\<close>. The
  model returns the argument every started worker receives.
\<close>

definition ProcessGroup_start :: "int \<Rightarrow> 'a \<Rightarrow> 'a list" where
  "ProcessGroup_start concurrency a = replicate (nat concurrency) a"

text \<open>
  \<^verbatim>\<open>run_load\<close> (lines 227-240): \<open>tx_left\<close> is \<open>None\<close> unless \<open>count > 0\<close>, then
  \<^verbatim>\<open>int(args.count / args.multiprocess)\<close>; every worker of the group is started on that
  one value. The result is the list of quotas handed to the workers; the line printed
  first and the statistics thread have no part in it.
\<close>

definition run_load_tx_left :: "load_args \<Rightarrow> exn + int option" where
  "run_load_tx_left args =
     (if count args > 0 then
        (case py_int_truediv (count args) (multiprocess args) of
           Inl e \<Rightarrow> Inl e
         | Inr q \<Rightarrow> Inr (Some q))
      else Inr None)"

definition run_load :: "load_args \<Rightarrow> exn + int option list" where
  "run_load args =
     (case run_load_tx_left args of
        Inl e \<Rightarrow> Inl e
      | Inr tx_left \<Rightarrow> Inr (ProcessGroup_start (multiprocess args) tx_left))"

text \<open>The total of the bounded quotas of a list of workers (\<open>None\<close> counts for nothing).\<close>

fun quota :: "int option \<Rightarrow> int" where
  "quota None = 0"
| "quota (Some n) = n"

definition quota_sum :: "int option list \<Rightarrow> int" where
  "quota_sum qs = sum_list (map quota qs)"

text \<open>
  The local state of one worker running \<^verbatim>\<open>_run_load(tx_left, stats)\<close>: its remaining
  quota and the \<^verbatim>\<open>'transactions'\<close> counter of its statistics object.
\<close>

record worker =
  tx_left :: "int option"
  transactions :: int

text \<open>
  One pass through the loop body of \<^verbatim>\<open>_run_load\<close> (lines 214-224). The pass first
  builds, signs and writes a transaction; these three calls are outside the sources, and
  \<open>ext\<close> is what they do: \<open>None\<close> when they return, \<open>Some e\<close> when one of them
  raises \<open>e\<close> (the loop has no handler). Then the counter is incremented, and a quota
  that is not \<open>None\<close> is decremented and compared with \<open>0\<close>.
\<close>

definition run_load_body :: "exn option \<Rightarrow> worker \<Rightarrow> worker flow" where
  "run_load_body ext w =
     (case ext of
        Some e \<Rightarrow> Raise e
      | None \<Rightarrow>
          (let w1 = w\<lparr>transactions := transactions w + 1\<rparr> in
           case tx_left w1 of
             None \<Rightarrow> Continue w1
           | Some t \<Rightarrow>
               (let w2 = w1\<lparr>tx_left := Some (t - 1)\<rparr> in
                if t - 1 = 0 then Break w2 else Continue w2)))"

text \<open>
  The loop \<^verbatim>\<open>while True\<close> of \<^verbatim>\<open>_run_load\<close>, run for at most \<open>n\<close> passes; \<open>ext i\<close>
  is the outcome of the external calls of pass \<open>i\<close>. \<open>Continue w\<close> says that after
  \<open>n\<close> passes the loop is still running, in state \<open>w\<close>; \<open>Break w\<close> that it was left
  by \<^verbatim>\<open>break\<close>, so that \<^verbatim>\<open>_run_load\<close> returns; \<open>Raise e\<close> that an exception
  ended the worker.
\<close>

fun u_run_load_loop :: "(nat \<Rightarrow> exn option) \<Rightarrow> nat \<Rightarrow> worker \<Rightarrow> worker flow" where
  "u_run_load_loop ext 0 w = Continue w"
| "u_run_load_loop ext (Suc n) w =
     (case run_load_body (ext 0) w of
        Continue w' \<Rightarrow> u_run_load_loop (\<lambda>i. ext (Suc i)) n w'
      | Break w' \<Rightarrow> Break w'
      | Raise e \<Rightarrow> Raise e)"

text \<open>
  \<^verbatim>\<open>_run_load(tx_left, stats)\<close> (lines 210-224): the worker constructs
  \<^verbatim>\<open>Bigchain()\<close>, which raises when the node has no keypair, and then loops. \<open>left\<close>
  is the argument \<^verbatim>\<open>tx_left\<close>, and \<open>stats\<close> the value of the \<^verbatim>\<open>'transactions'\<close>
  counter that the worker is started with.
\<close>

definition u_run_load ::
  "world \<Rightarrow> (nat \<Rightarrow> exn option) \<Rightarrow> nat \<Rightarrow> int option \<Rightarrow> int \<Rightarrow> worker flow" where
  "u_run_load w ext n left stats =
     (case fst (Bigchain w) of
        Inl e \<Rightarrow> Raise e
      | Inr b \<Rightarrow> u_run_load_loop ext n \<lparr>tx_left = left, transactions = stats\<rparr>)"

text \<open>A worker as started by \<^verbatim>\<open>run_load\<close>: its quota, and a fresh child counter.\<close>

definition start_worker :: "int option \<Rightarrow> worker" where
  "start_worker q = \<lparr>tx_left = q, transactions = 0\<rparr>"

text \<open>
  The pool of workers of one load run. The workers are separate processes that share
  nothing but the statistics; each pass of a worker's loop is one step of the pool, and
  the steps of different workers interleave in any order. A worker is running, has
  returned (its loop was left by \<^verbatim>\<open>break\<close>), or was ended by an exception.
\<close>

datatype proc = Running worker | Finished worker | Crashed exn worker

fun proc_worker :: "proc \<Rightarrow> worker" where
  "proc_worker (Running w) = w"
| "proc_worker (Finished w) = w"
| "proc_worker (Crashed e w) = w"

fun is_finished :: "proc \<Rightarrow> bool" where
  "is_finished (Finished w) = True"
| "is_finished p = False"

fun advance :: "exn option \<Rightarrow> proc \<Rightarrow> proc" where
  "advance ext (Running w) =
     (case run_load_body ext w of
        Continue w' \<Rightarrow> Running w'
      | Break w' \<Rightarrow> Finished w'
      | Raise e \<Rightarrow> Crashed e w)"
| "advance ext p = p"

text \<open>
  The aggregated counter: the sum of the \<^verbatim>\<open>'transactions'\<close> increments of all the
  workers of the run.
\<close>

definition snapshot :: "proc list \<Rightarrow> int" where
  "snapshot ps = sum_list (map (\<lambda>p. transactions (proc_worker p)) ps)"

text \<open>
  The pool that \<^verbatim>\<open>run_load\<close> starts on the node \<open>w\<close> for the quotas \<open>qs\<close>: a worker
  enters its loop, unless the construction of \<^verbatim>\<open>Bigchain()\<close> fails.
\<close>

definition start_pool :: "world \<Rightarrow> int option list \<Rightarrow> proc list" where
  "start_pool w qs =
     map (\<lambda>q. case fst (Bigchain w) of
                 Inl e \<Rightarrow> Crashed e (start_worker q)
               | Inr b \<Rightarrow> Running (start_worker q)) qs"

definition all_finished :: "proc list \<Rightarrow> bool" where
  "all_finished ps = list_all is_finished ps"

inductive pool_step :: "proc list \<Rightarrow> proc list \<Rightarrow> bool" where
  pass: "i < length ps \<Longrightarrow> ps ! i = Running w \<Longrightarrow>
         pool_step ps (ps[i := advance ext (Running w)])"

text \<open>
  What holds of every worker of a bounded run with quota \<open>q\<close>: while it runs, its
  remaining quota is positive and adds up to \<open>q\<close> with what it has counted.
\<close>

fun proc_ok :: "int \<Rightarrow> proc \<Rightarrow> bool" where
  "proc_ok q (Running w) =
     (case tx_left w of None \<Rightarrow> False | Some t \<Rightarrow> 0 < t \<and> transactions w + t = q)"
| "proc_ok q (Finished w) = (transactions w = q)"
| "proc_ok q (Crashed e w) = True"

text \<open>A worker whose loop cannot reach \<^verbatim>\<open>break\<close>: no quota, or a quota not above zero.\<close>

definition never_stops :: "worker \<Rightarrow> bool" where
  "never_stops w = (case tx_left w of None \<Rightarrow> True | Some t \<Rightarrow> t \<le> 0)"

section \<open>The bootstrap sequencer: \<open>init\<close> and \<open>start\<close>\<close>

text \<open>
  Modelled from the spec: \<^verbatim>\<open>schema.init_database\<close> is not among the sources. The
  spec: it initializes the database, and "signals already exists" when the database is
  there; the source names the signal \<^verbatim>\<open>DatabaseAlreadyExists\<close>.
\<close>

definition init_database :: "world \<Rightarrow> (exn + unit) \<times> world" where
  "init_database w =
     (let w1 = called Init_database w in
      if db_exists (db w1) then (Inl DatabaseAlreadyExists, w1)
      else (Inr (), w1\<lparr>db := (db w1)\<lparr>db_exists := True\<rparr>\<rparr>))"

text \<open>
  Modelled from the spec: \<^verbatim>\<open>Bigchain.create_genesis_block\<close> is not among the sources.
  The spec: genesis creation adds a genesis record, and is "invoked only immediately after
  a fresh database initialization ... to avoid creating a second genesis record", so a
  further call would add a further record.
\<close>

definition create_genesis_block :: "world \<Rightarrow> world" where
  "create_genesis_block w =
     (let w1 = called Create_genesis_block w in
      w1\<lparr>db := (db w1)\<lparr>genesis := Suc (genesis (db w1))\<rparr>\<rparr>)"

text \<open>\<^verbatim>\<open>_run_init\<close> (lines 131-139).\<close>

definition u_run_init :: "world \<Rightarrow> (exn + unit) \<times> world" where
  "u_run_init w =
     (case Bigchain w of
        (Inl e, w1) \<Rightarrow> (Inl e, w1)
      | (Inr b, w1) \<Rightarrow>
          (case init_database w1 of
             (Inl e, w2) \<Rightarrow> (Inl e, w2)
           | (Inr u, w2) \<Rightarrow>
               (Inr (),
                print_out ''Done, have fun!''
                  (create_genesis_block
                    (print_out ''Create genesis block.'' w2)))))"

text \<open>
  \<^verbatim>\<open>run_init\<close> (lines 142-152). The decorator \<^verbatim>\<open>configure_bigchaindb\<close> loads the
  configuration before the body runs; \<open>config w\<close> is the configuration it leaves.
\<close>

definition run_init :: "world \<Rightarrow> (exn + unit) \<times> world" where
  "run_init w =
     (case u_run_init w of
        (Inl DatabaseAlreadyExists, w1) \<Rightarrow>
          (Inr (),
           print_err ''If you wish to re-initialize it, first drop it.''
             (print_err ''The database already exists.'' w1))
      | r \<Rightarrow> r)"

record start_args =
  allow_temp_keypair :: bool
  start_rethinkdb :: bool

text \<open>
  Lines 180-188 of \<^verbatim>\<open>run_start\<close>: with \<^verbatim>\<open>--dev-allow-temp-keypair\<close>, a keypair is
  generated in memory when neither key is set. \<^verbatim>\<open>a or b\<close> reads \<open>b\<close> only when \<open>a\<close>
  is not true.
\<close>

definition start_keypair :: "env \<Rightarrow> start_args \<Rightarrow> world \<Rightarrow> (exn + unit) \<times> world" where
  "start_keypair env args w =
     (if allow_temp_keypair args then
        (case and_then (keypair_get (config w) ''private'') (\<lambda>private.
              if truthy private then Inr private
              else keypair_get (config w) ''public'') of
           Inl e \<Rightarrow> (Inl e, w)
         | Inr found \<Rightarrow>
             if \<not> truthy found then
               (let w1 = called Generate_key_pair w in
                case and_then (keypair_set (config w1) ''private'' (PStr (fst (new_key_pair env))))
                       (\<lambda>c. keypair_set c ''public'' (PStr (snd (new_key_pair env)))) of
                  Inl e \<Rightarrow> (Inl e, w1)
                | Inr c \<Rightarrow> (Inr (), w1\<lparr>config := c\<rparr>))
             else
               (Inr (),
                called (Log_warning ''Keypair found, no need to create one on the fly.'') w))
      else (Inr (), w))"

text \<open>Lines 190-195: with \<^verbatim>\<open>--dev-start-rethinkdb\<close>, RethinkDB is started first.\<close>

definition start_service :: "env \<Rightarrow> start_args \<Rightarrow> world \<Rightarrow> (exn + unit) \<times> world" where
  "start_service env args w =
     (if start_rethinkdb args then
        (let w1 = called Start_rethinkdb w in
         case rethinkdb env of
           Inl reason \<Rightarrow>
             (Inl (SystemExit (''Error starting RethinkDB, reason is: '' @ reason)), w1)
         | Inr pid \<Rightarrow>
             (Inr (), called (Log_info (''RethinkDB started with PID '' @ pid) []) w1))
      else (Inr (), w))"

text \<open>Lines 197-207: initialization, then the handoff to the node's processes.\<close>

definition start_init :: "world \<Rightarrow> (exn + unit) \<times> world" where
  "start_init w =
     (case u_run_init w of
        (Inl DatabaseAlreadyExists, w1) \<Rightarrow> (Inr (), w1)
      | (Inl KeypairNotFoundException, w1) \<Rightarrow>
          (Inl (SystemExit
             ''Can't start BigchainDB, no keypair found. Did you run `bigchaindb configure`?''),
           w1)
      | r \<Rightarrow> r)"

definition start_processes :: "world \<Rightarrow> (exn + unit) \<times> world" where
  "start_processes w =
     (case keypair_get (config w) ''public'' of
        Inl e \<Rightarrow> (Inl e, w)
      | Inr public \<Rightarrow>
          (Inr (),
           called Processes_start
             (called (Log_info ''Starting BigchainDB main process with public key %s'' [public])
                w)))"

text \<open>One statement after the other: an exception skips the rest.\<close>

fun next_do ::
  "(exn + unit) \<times> world \<Rightarrow> (world \<Rightarrow> (exn + unit) \<times> world) \<Rightarrow> (exn + unit) \<times> world" where
  "next_do (Inl e, w) f = (Inl e, w)"
| "next_do (Inr u, w) f = f w"

text \<open>\<^verbatim>\<open>run_start\<close> (lines 170-207).\<close>

definition run_start :: "env \<Rightarrow> start_args \<Rightarrow> world \<Rightarrow> (exn + unit) \<times> world" where
  "run_start env args w =
     next_do (next_do (next_do
       (start_keypair env args
          (called Setup_logging (print_out (''BigchainDB Version '' @ version env) w)))
       (start_service env args))
       start_init)
       start_processes"

section \<open>The topology administrator\<close>

text \<open>
  \<^verbatim>\<open>run_set_shards\<close> and \<^verbatim>\<open>run_set_replicas\<close> (lines 243-258): connect, call the
  backend, and print an \<^verbatim>\<open>OperationError\<close> to standard error; any other exception is
  not handled. The argument is what the parser gives: \<^verbatim>\<open>type=int\<close>, any integer.
\<close>

definition run_set_shards :: "env \<Rightarrow> int \<Rightarrow> world \<Rightarrow> (exn + unit) \<times> world" where
  "run_set_shards env num_shards w =
     (let w1 = called (Admin (Set_shards num_shards)) (called Connect w) in
      case admin env (Set_shards num_shards) of
        None \<Rightarrow> (Inr (), w1)
      | Some (OperationError e) \<Rightarrow> (Inr (), print_err e w1)
      | Some x \<Rightarrow> (Inl x, w1))"

definition run_set_replicas :: "env \<Rightarrow> int \<Rightarrow> world \<Rightarrow> (exn + unit) \<times> world" where
  "run_set_replicas env num_replicas w =
     (let w1 = called (Admin (Set_replicas num_replicas)) (called Connect w) in
      case admin env (Set_replicas num_replicas) of
        None \<Rightarrow> (Inr (), w1)
      | Some (OperationError e) \<Rightarrow> (Inr (), print_err e w1)
      | Some x \<Rightarrow> (Inl x, w1))"

text \<open>
  \<^verbatim>\<open>'{}'.format(replicas)\<close> for a list of host strings: Python's \<^verbatim>\<open>repr\<close> of the list,
  for hosts without quotes or backslashes in them.
\<close>

definition quoted :: "string \<Rightarrow> string" where
  "quoted h = CHR 0x27 # h @ [CHR 0x27]"

fun join_repr :: "string list \<Rightarrow> string" where
  "join_repr [] = []"
| "join_repr [h] = quoted h"
| "join_repr (h # hs) = quoted h @ '', '' @ join_repr hs"

definition format_hosts :: "string list \<Rightarrow> string" where
  "format_hosts hs = ''['' @ join_repr hs @ '']''"

text \<open>
  \<^verbatim>\<open>run_add_replicas\<close> and \<^verbatim>\<open>run_remove_replicas\<close> (lines 261-284): these two also
  catch \<^verbatim>\<open>NotImplementedError\<close>, and report success on standard output.
\<close>

definition run_add_replicas :: "env \<Rightarrow> string list \<Rightarrow> world \<Rightarrow> (exn + unit) \<times> world" where
  "run_add_replicas env replicas w =
     (let w1 = called (Admin (Add_replicas replicas)) (called Connect w) in
      case admin env (Add_replicas replicas) of
        None \<Rightarrow>
          (Inr (), print_out (''Added '' @ format_hosts replicas @ '' to the replicaset.'') w1)
      | Some (OperationError e) \<Rightarrow> (Inr (), print_err e w1)
      | Some (NotImplementedError e) \<Rightarrow> (Inr (), print_err e w1)
      | Some x \<Rightarrow> (Inl x, w1))"

definition run_remove_replicas :: "env \<Rightarrow> string list \<Rightarrow> world \<Rightarrow> (exn + unit) \<times> world" where
  "run_remove_replicas env replicas w =
     (let w1 = called (Admin (Remove_replicas replicas)) (called Connect w) in
      case admin env (Remove_replicas replicas) of
        None \<Rightarrow>
          (Inr (),
           print_out (''Removed '' @ format_hosts replicas @ '' from the replicaset.'') w1)
      | Some (OperationError e) \<Rightarrow> (Inr (), print_err e w1)
      | Some (NotImplementedError e) \<Rightarrow> (Inr (), print_err e w1)
      | Some x \<Rightarrow> (Inl x, w1))"

text \<open>The four topology commands, by the call each makes.\<close>

fun run_topology :: "env \<Rightarrow> admin_call \<Rightarrow> world \<Rightarrow> (exn + unit) \<times> world" where
  "run_topology env (Set_shards n) w = run_set_shards env n w"
| "run_topology env (Set_replicas n) w = run_set_replicas env n w"
| "run_topology env (Add_replicas hs) w = run_add_replicas env hs w"
| "run_topology env (Remove_replicas hs) w = run_remove_replicas env hs w"

text \<open>The two commands that change the membership of the replica set.\<close>

fun replica_set_call :: "admin_call \<Rightarrow> bool" where
  "replica_set_call (Add_replicas hs) = True"
| "replica_set_call (Remove_replicas hs) = True"
| "replica_set_call c = False"

section \<open>\<open>show-config\<close>\<close>

text \<open>
  \<^verbatim>\<open>run_show_config\<close> (lines 37-47) works on a deep copy, so \<open>config w\<close> stays as it
  is: it deletes \<^verbatim>\<open>'CONFIGURED'\<close>, replaces a private key that is set by 45 times
  \<open>x\<close> and one that is not by \<open>None\<close>, and prints the dump.
\<close>

definition redacted :: "pyval \<Rightarrow> exn + pyval" where
  "redacted cfg =
     and_then (delitem cfg ''CONFIGURED'') (\<lambda>copy.
     and_then (keypair_get copy ''private'') (\<lambda>private_key.
     keypair_set copy ''private''
       (if truthy private_key then PStr (replicate 45 CHR ''x'') else PNone)))"

definition run_show_config :: "env \<Rightarrow> world \<Rightarrow> (exn + unit) \<times> world" where
  "run_show_config env w =
     (case redacted (config w) of
        Inl e \<Rightarrow> (Inl e, w)
      | Inr shown \<Rightarrow> (Inr (), print_out (json_dumps env shown) w))"

section \<open>Concrete nodes\<close>

text \<open>
  Inputs for the examples: a backend without a database, the configuration of a node
  with the given keys (\<open>None\<close> for a key that is not set, as in the default
  configuration), nodes built from them, collaborators that all succeed, and two
  command lines of \<^verbatim>\<open>start\<close>.
\<close>

definition fresh_backend :: backend where
  "fresh_backend = \<lparr>db_exists = False, genesis = 0\<rparr>"

definition node_config :: "pyval \<Rightarrow> pyval \<Rightarrow> pyval" where
  "node_config private public =
     PDict [(''CONFIGURED'', PBool True),
            (''keypair'', PDict [(''private'', private), (''public'', public)]),
            (''backlog_reassign_delay'', PInt 120)]"

definition unconfigured_node :: world where
  "unconfigured_node =
     \<lparr>config = node_config PNone PNone, db = fresh_backend,
      stdout = [], stderr = [], calls = []\<rparr>"

definition half_configured_node :: world where
  "half_configured_node = unconfigured_node\<lparr>config := node_config PNone (PStr ''public'')\<rparr>"

definition configured_node :: world where
  "configured_node =
     \<lparr>config = node_config (PStr ''secret'') (PStr ''public''), db = fresh_backend,
      stdout = [], stderr = [], calls = []\<rparr>"

definition existing_node :: world where
  "existing_node = configured_node\<lparr>db := \<lparr>db_exists = True, genesis = 1\<rparr>\<rparr>"

definition quiet_env :: env where
  "quiet_env =
     \<lparr>version = ''0.9.0'', new_key_pair = (''generated private'', ''generated public''),
      rethinkdb = Inr ''4242'', admin = (\<lambda>c. None), json_dumps = (\<lambda>v. [])\<rparr>"

definition plain_start :: start_args where
  "plain_start = \<lparr>allow_temp_keypair = False, start_rethinkdb = False\<rparr>"

definition dev_start :: start_args where
  "dev_start = \<lparr>allow_temp_keypair = True, start_rethinkdb = True\<rparr>"

text \<open>
  Backends that answer every topology call with an \<^verbatim>\<open>OperationError\<close>, or with a
  \<^verbatim>\<open>NotImplementedError\<close>; a second node that differs from \<open>configured_node\<close> in
  its private key only; and a dump that prints nothing but the private key it is given.
\<close>

definition rejecting_env :: env where
  "rejecting_env = quiet_env\<lparr>admin := (\<lambda>c. Some (OperationError ''rejected''))\<rparr>"

definition unsupporting_env :: env where
  "unsupporting_env = quiet_env\<lparr>admin := (\<lambda>c. Some (NotImplementedError ''unsupported''))\<rparr>"

definition rekeyed_node :: world where
  "rekeyed_node =
     configured_node\<lparr>config := node_config (PStr ''another secret'') (PStr ''public'')\<rparr>"

definition echo_env :: env where
  "echo_env = quiet_env\<lparr>json_dumps :=
     (\<lambda>v. case keypair_get v ''private'' of Inr (PStr s) \<Rightarrow> s | _ \<Rightarrow> [])\<rparr>"

section \<open>Properties of the load generator\<close>

lemma bit_length_0 [simp]: "bit_length 0 = 0"
  by (simp add: bit_length.simps)

lemma bit_length_Suc_0 [simp]: "bit_length (Suc 0) = 1"
  by (subst bit_length.simps) simp

lemma bit_length_1 [simp]: "bit_length 1 = 1"
  using bit_length_Suc_0 by simp

lemma bit_length_double: "0 < n \<Longrightarrow> bit_length (2 * n) = Suc (bit_length n)"
  by (simp add: bit_length.simps [of "2 * n"])

lemma bit_length_double1: "bit_length (2 * n + 1) = Suc (bit_length n)"
  by (subst bit_length.simps) simp

lemma bit_length_Bit0 [simp]:
  "bit_length (numeral (Num.Bit0 k)) = Suc (bit_length (numeral k))"
  using bit_length_double [of "numeral k"] by (simp add: numeral_Bit0 mult_2)

lemma bit_length_Bit1 [simp]:
  "bit_length (numeral (Num.Bit1 k)) = Suc (bit_length (numeral k))"
  using bit_length_double1 [of "numeral k"] by (simp add: numeral_Bit1 mult_2)

lemmas float_eval =
  py_int_truediv_def float_div_def float_to_int_def round_half_even_def Let_def

lemma bit_length_bounds:
  "0 < n \<Longrightarrow> 2 ^ bit_length n \<le> 2 * n \<and> n < 2 ^ bit_length n"
proof (induction n rule: bit_length.induct)
  case (1 n)
  show ?case
  proof (cases "n div 2 = 0")
    case True
    with "1.prems" have "n = 1" by auto
    then show ?thesis by simp
  next
    case False
    then have pos: "0 < n div 2" by simp
    from "1.prems" have bl: "bit_length n = Suc (bit_length (n div 2))"
      by (subst bit_length.simps) simp
    from "1.IH" "1.prems" pos
    have ih: "2 ^ bit_length (n div 2) \<le> 2 * (n div 2)" "n div 2 < 2 ^ bit_length (n div 2)"
      by simp_all
    have "2 * (n div 2) \<le> n" "n < 2 * (n div 2) + 2" by arith+
    with ih show ?thesis unfolding bl by simp
  qed
qed

lemma round_half_even_cases:
  "round_half_even n d = n div d \<or> round_half_even n d = n div d + 1"
  by (simp add: round_half_even_def Let_def)

lemma round_half_even_up:
  "round_half_even n d = n div d + 1 \<Longrightarrow> d \<le> 2 * (n mod d)"
  by (simp add: round_half_even_def Let_def split: if_splits)

lemma round_half_even_ge:
  assumes "0 < d" and "k * d \<le> n"
  shows "k \<le> round_half_even n d"
proof -
  from assms have "k \<le> n div d"
    by (simp add: less_eq_div_iff_mult_less_eq)
  with round_half_even_cases [of n d] show ?thesis by auto
qed

lemma round_half_even_less:
  assumes "0 < d" and "2 * n + d < 2 * k * d"
  shows "round_half_even n d < k"
proof -
  let ?q = "n div d" and ?r = "n mod d"
  have n: "n = ?q * d + ?r" by simp
  from round_half_even_cases [of n d] show ?thesis
  proof
    assume m: "round_half_even n d = ?q"
    have "2 * (?q * d) \<le> 2 * n" by simp
    with assms(2) have "2 * (?q * d) < 2 * k * d" by linarith
    then have "?q * d < k * d" by simp
    then have "?q < k" by (simp only: mult_less_cancel2)
    with m show ?thesis by simp
  next
    assume m: "round_half_even n d = ?q + 1"
    then have "d \<le> 2 * ?r" by (rule round_half_even_up)
    moreover have "2 * n = 2 * (?q * d) + 2 * ?r" using n by linarith
    ultimately have "2 * ((?q + 1) * d) \<le> 2 * n + d" by (simp add: algebra_simps)
    with assms(2) have "2 * ((?q + 1) * d) < 2 * (k * d)" by (simp add: algebra_simps)
    then have "(?q + 1) * d < k * d" by simp
    then have "?q + 1 < k" by (simp only: mult_less_cancel2)
    with m show ?thesis by simp
  qed
qed

lemma round_half_even_scale:
  "0 < c \<Longrightarrow> round_half_even (n * c) (d * c) = round_half_even n d"
  by (simp add: round_half_even_def Let_def mult.assoc [symmetric] del: mult.assoc)

lemma float_div_normal:
  assumes "0 < a" and "0 < b"
  obtains m p where "float_div a b = (m, p, bit_length b + 53)"
    and "m = round_half_even (a * 2 ^ (bit_length b + 53)) (b * 2 ^ p)"
    and "2 ^ 52 * (b * 2 ^ p) \<le> a * 2 ^ (bit_length b + 53)"
    and "a * 2 ^ (bit_length b + 53) < 2 ^ 53 * (b * 2 ^ p)"
    and "p \<le> bit_length a + 1"
proof -
  define A :: nat where "A = 2 ^ bit_length a"
  define B :: nat where "B = 2 ^ bit_length b"
  define X where "X = b * A"
  define Y where "Y = a * B"
  from bit_length_bounds [OF assms(1)] have a: "A \<le> 2 * a" "a < A"
    by (simp_all add: A_def)
  from bit_length_bounds [OF assms(2)] have b: "B \<le> 2 * b" "b < B"
    by (simp_all add: B_def)
  have "b * A \<le> B * (2 * a)"
    using a(1) b(2) by (intro mult_mono) simp_all
  then have xy: "X \<le> 2 * Y" by (simp add: X_def Y_def ac_simps)
  have "a * B < A * (2 * b)"
    using a(2) b(1) assms by (intro mult_less_le_imp_less) (simp_all add: B_def)
  then have yx: "Y < 2 * X" by (simp add: X_def Y_def ac_simps)
  have n: "a * 2 ^ (bit_length b + 53) = Y * 2 ^ 53"
    by (simp add: Y_def B_def power_add)
  show thesis
  proof (cases "Y < X")
    case True
    then have c: "a * 2 ^ (bit_length b + 53) < 2 ^ 53 * (b * 2 ^ bit_length a)"
      unfolding n by (simp add: X_def A_def)
    show thesis
    proof (rule that [of _ "bit_length a"])
      show "float_div a b =
        (round_half_even (a * 2 ^ (bit_length b + 53)) (b * 2 ^ bit_length a),
         bit_length a, bit_length b + 53)"
        using c by (simp add: float_div_def Let_def)
      show "2 ^ 52 * (b * 2 ^ bit_length a) \<le> a * 2 ^ (bit_length b + 53)"
        unfolding n using xy by (simp add: X_def A_def)
      show "a * 2 ^ (bit_length b + 53) < 2 ^ 53 * (b * 2 ^ bit_length a)"
        by (rule c)
    qed simp_all
  next
    case False
    then have c: "\<not> a * 2 ^ (bit_length b + 53) < 2 ^ 53 * (b * 2 ^ bit_length a)"
      unfolding n by (simp add: X_def A_def)
    show thesis
    proof (rule that [of _ "bit_length a + 1"])
      show "float_div a b =
        (round_half_even (a * 2 ^ (bit_length b + 53)) (b * 2 ^ (bit_length a + 1)),
         bit_length a + 1, bit_length b + 53)"
        using c by (simp add: float_div_def Let_def)
      show "2 ^ 52 * (b * 2 ^ (bit_length a + 1)) \<le> a * 2 ^ (bit_length b + 53)"
        unfolding n using False by (simp add: X_def A_def)
      show "a * 2 ^ (bit_length b + 53) < 2 ^ 53 * (b * 2 ^ (bit_length a + 1))"
        unfolding n using yx by (simp add: X_def A_def)
    qed simp_all
  qed
qed

lemma float_quotient_below_one:
  assumes "0 < a" and "a < b" and "2 ^ 54 * a + b < 2 ^ 54 * b"
  shows "float_to_int (float_div a b) = Inr 0"
proof -
  from assms have bpos: "0 < b" by simp
  define r where "r = bit_length b + 53"
  define T :: nat where "T = 2 ^ 53"
  define L :: nat where "L = 2 ^ bit_length b"
  obtain m p where f: "float_div a b = (m, p, r)"
    and m: "m = round_half_even (a * 2 ^ r) (b * 2 ^ p)"
    and lo: "2 ^ 52 * (b * 2 ^ p) \<le> a * 2 ^ r"
    using float_div_normal [OF assms(1) bpos] unfolding r_def by metis
  define P :: nat where "P = 2 ^ p"
  have r: "(2::nat) ^ r = L * T" by (simp add: r_def L_def T_def power_add)
  have Lpos: "0 < L" and Ppos: "0 < P" and Tpos: "0 < T"
    by (simp_all add: L_def P_def T_def)
  have "2 ^ 52 * (b * P) \<le> 2 ^ 53 * (a * L)"
    using lo by (simp add: r_def L_def P_def power_add ac_simps)
  then have lo': "b * P \<le> 2 * (a * L)" by (simp add: ac_simps)
  have "a * L < b * L" using assms(2) Lpos by simp
  with lo' have "b * P < 2 * (b * L)" by linarith
  then have "b * P < b * (2 * L)" by (simp only: ac_simps)
  then have "P < 2 * L" using bpos by simp
  then have "(2::nat) ^ p < 2 ^ (bit_length b + 1)" by (simp add: P_def L_def)
  then have "p < bit_length b + 1" by (simp only: power_strict_increasing_iff)
  then have pl: "p \<le> bit_length b" by simp
  then have PL: "P \<le> L" by (simp add: P_def L_def)
  define k :: nat where "k = 2 ^ (bit_length b - p) * T"
  have "(2::nat) ^ (bit_length b - p) * 2 ^ p = 2 ^ bit_length b"
    using pl by (simp add: power_add [symmetric])
  then have kP: "k * P = L * T"
    by (simp add: k_def P_def L_def ac_simps)
  from assms(3) have "2 * T * a + b < 2 * T * b" by (simp add: T_def)
  then have "(2 * T * a + b) * L < (2 * T * b) * L"
    using Lpos by (intro mult_strict_right_mono)
  then have "2 * (a * (L * T)) + b * L < 2 * (b * (L * T))"
    by (simp add: algebra_simps)
  moreover have "b * P \<le> b * L" using PL by simp
  ultimately have "2 * (a * (L * T)) + b * P < 2 * (b * (L * T))"
    by linarith
  also have "2 * (b * (L * T)) = 2 * k * (b * P)"
    using kP by (simp add: ac_simps)
  finally have "2 * (a * 2 ^ r) + b * 2 ^ p < 2 * k * (b * 2 ^ p)"
    by (simp only: r P_def)
  moreover have "0 < b * 2 ^ p" using bpos by simp
  ultimately have "m < k"
    unfolding m by (intro round_half_even_less)
  then have "m * P < k * P" using Ppos by simp
  then have "m * P < 2 ^ r" by (simp only: kP r)
  then have small: "m * 2 ^ p < 2 ^ r" by (simp only: P_def)
  have "(2::nat) ^ r \<le> 2 ^ 1024 * 2 ^ r" by simp
  with small have "\<not> 2 ^ 1024 * 2 ^ r \<le> m * 2 ^ p" by linarith
  with small show ?thesis by (simp add: f float_to_int_def)
qed

lemma float_quotient_exact:
  assumes "0 < a" and "0 < b" and "a < 2 ^ 53"
  shows "float_to_int (float_div a b) = Inr (a div b)"
proof (cases "a < b")
  case True
  have "2 ^ 54 * a + b < 2 ^ 54 * b"
  proof (cases "b < 2 ^ 54")
    case True
    with \<open>a < b\<close> show ?thesis by simp
  next
    case False
    with assms(3) show ?thesis by simp
  qed
  with True assms(1) show ?thesis
    by (simp add: float_quotient_below_one)
next
  case False
  then have ba: "b \<le> a" by simp
  define r where "r = bit_length b + 53"
  define T :: nat where "T = 2 ^ 53"
  obtain m p where f: "float_div a b = (m, p, r)"
    and m: "m = round_half_even (a * 2 ^ r) (b * 2 ^ p)"
    and lo: "2 ^ 52 * (b * 2 ^ p) \<le> a * 2 ^ r"
    and pa: "p \<le> bit_length a + 1"
    using float_div_normal [OF assms(1,2)] unfolding r_def by metis
  have aT: "a < T" using assms(3) by (simp add: T_def)
  from bit_length_bounds [OF assms(1)] assms(3)
  have "(2::nat) ^ bit_length a < 2 ^ 54" by simp
  then have "bit_length a < 54" by (simp only: power_strict_increasing_iff)
  moreover from bit_length_bounds [OF assms(2)] have "bit_length b \<noteq> 0"
    using assms(2) by (cases "bit_length b") auto
  ultimately have pr: "p \<le> r" using pa by (simp add: r_def)
  define P :: nat where "P = 2 ^ p"
  define S :: nat where "S = 2 ^ (r - p)"
  have R: "(2::nat) ^ r = S * P"
    using pr by (simp add: S_def P_def power_add [symmetric])
  have Ppos: "0 < P" and Spos: "0 < S" by (simp_all add: P_def S_def)
  have m': "m = round_half_even (a * S) b"
    unfolding m R P_def [symmetric]
    using round_half_even_scale [OF Ppos, of "a * S" b] by (simp add: ac_simps)
  define k where "k = a div b"
  have kb: "k * b \<le> a" by (simp add: k_def)
  have ka: "a < (k + 1) * b"
    using dividend_less_div_times [OF assms(2), of a] by (simp add: k_def algebra_simps)
  have "(k * b) * S \<le> a * S" using kb by (intro mult_right_mono) simp_all
  then have "(k * S) * b \<le> a * S" by (simp add: ac_simps)
  with assms(2) have lower: "k * S \<le> m"
    unfolding m' by (intro round_half_even_ge)
  have "2 ^ 52 * (b * P) \<le> (a * S) * P"
    using lo by (simp only: R P_def [symmetric] ac_simps)
  then have "(2 ^ 52 * b) * P \<le> (a * S) * P" by (simp only: ac_simps)
  then have "2 ^ 52 * b \<le> a * S" using Ppos by (simp only: mult_le_cancel2)
  moreover have "a * S < T * S" using aT Spos by simp
  ultimately have "2 ^ 52 * b < T * S" by linarith
  then have bS: "b < 2 * S" by (simp add: T_def)
  from ka have "a + 1 \<le> (k + 1) * b" by simp
  then have "(a + 1) * S \<le> ((k + 1) * b) * S" by (intro mult_right_mono) simp_all
  then have "a * S + S \<le> (k + 1) * S * b" by (simp add: algebra_simps)
  moreover have "2 * ((k + 1) * S) * b = 2 * ((k + 1) * S * b)" by simp
  ultimately have "2 * (a * S) + b < 2 * ((k + 1) * S) * b" using bS by linarith
  with assms(2) have upper: "m < (k + 1) * S"
    unfolding m' by (intro round_half_even_less)
  from lower have "(k * S) * P \<le> m * P" by (intro mult_right_mono) simp_all
  then have lo2: "2 ^ r * k \<le> m * 2 ^ p" by (simp only: R P_def [symmetric] ac_simps)
  from upper Ppos have "m * P < ((k + 1) * S) * P" by simp
  then have hi2: "m * 2 ^ p < 2 ^ r * Suc k" by (simp only: R P_def [symmetric] ac_simps Suc_eq_plus1)
  from lo2 hi2 have d: "(m * 2 ^ p) div 2 ^ r = k" by (rule div_nat_eqI)
  define M :: nat where "M = 2 ^ 1024"
  have "k \<le> a" by (simp add: k_def)
  with aT have "Suc k \<le> M" by (simp add: T_def M_def)
  then have "2 ^ r * Suc k \<le> 2 ^ r * M" by (intro mult_left_mono) simp_all
  with hi2 have "m * 2 ^ p < M * 2 ^ r" by (simp only: ac_simps)
  then have "\<not> M * 2 ^ r \<le> m * 2 ^ p" by simp
  then have "\<not> 2 ^ 1024 * 2 ^ r \<le> m * 2 ^ p" unfolding M_def .
  with d show ?thesis by (simp add: f float_to_int_def k_def)
qed

lemma py_int_truediv_examples:
  "py_int_truediv 10 4 = Inr 2"
  "py_int_truediv 3 4 = Inr 0"
  "py_int_truediv (- 7) 2 = Inr (- 3)"
  "py_int_truediv 7 0 = Inl ZeroDivisionError"
  "py_int_truediv (2 ^ 53 + 1) 1 = Inr (2 ^ 53)"
  "py_int_truediv (2 ^ 54 - 2) (2 ^ 54 - 1) = Inr 0"
  "py_int_truediv (2 ^ 54 - 1) (2 ^ 54) = Inr 1"
  "py_int_truediv (2 ^ 60) (2 ^ 60 + 1) = Inr 1"
  by (simp_all add: float_eval)

lemma py_int_truediv_exact:
  assumes "0 < a" and "0 < b" and "a < 2 ^ 53"
  shows "py_int_truediv a b = Inr (a div b)"
proof -
  have "nat a < 2 ^ 53" using assms(1,3) by simp
  with assms(1,2)
  have "float_to_int (float_div (nat a) (nat b)) = Inr (nat a div nat b)"
    by (intro float_quotient_exact) simp_all
  moreover have "int (nat a div nat b) = a div b"
    using assms(1,2) by (simp add: zdiv_int)
  ultimately show ?thesis
    using assms(1,2) by (simp add: py_int_truediv_def)
qed

lemma py_int_truediv_below_one:
  assumes "0 < a" and "a < b" and "2 ^ 54 * a + b < 2 ^ 54 * b"
  shows "py_int_truediv a b = Inr 0"
proof -
  have "int (2 ^ 54 * nat a + nat b) < int (2 ^ 54 * nat b)"
    using assms by simp
  then have "2 ^ 54 * nat a + nat b < 2 ^ 54 * nat b"
    by (simp only: of_nat_less_iff)
  with assms(1,2)
  have "float_to_int (float_div (nat a) (nat b)) = Inr 0"
    by (intro float_quotient_below_one) simp_all
  then show ?thesis
    using assms(1,2) by (simp add: py_int_truediv_def)
qed

lemma run_load_bounded:
  assumes "0 < count args" and "0 < multiprocess args" and "count args < 2 ^ 53"
  shows "run_load args =
    Inr (replicate (nat (multiprocess args)) (Some (count args div multiprocess args)))"
  using assms
  by (simp add: run_load_def run_load_tx_left_def py_int_truediv_exact ProcessGroup_start_def)

lemma quota_sum_replicate: "quota_sum (replicate n q) = int n * quota q"
  by (induction n) (simp_all add: quota_sum_def algebra_simps)

lemma quota_nonneg:
  "0 < a \<Longrightarrow> 0 < b \<Longrightarrow> 0 \<le> a div (b::int)"
  by (simp add: pos_imp_zdiv_nonneg_iff)

lemma run_load_quota_sum:
  assumes "0 < count args" and "0 < multiprocess args" and "count args < 2 ^ 53"
  shows "\<exists>qs. run_load args = Inr qs \<and> length qs = nat (multiprocess args) \<and>
           list_all (\<lambda>q. q = Some (count args div multiprocess args)) qs \<and>
           0 \<le> count args div multiprocess args \<and>
           quota_sum qs = multiprocess args * (count args div multiprocess args)"
  using assms
  by (simp add: run_load_bounded quota_sum_replicate list_all_length quota_nonneg)

lemma quota_sum_le:
  assumes "0 < count args" and "0 < multiprocess args" and "count args < 2 ^ 53"
    and "run_load args = Inr qs"
  shows "quota_sum qs \<le> count args \<and> count args - multiprocess args < quota_sum qs \<and>
         (quota_sum qs = count args \<longleftrightarrow> multiprocess args dvd count args)"
proof -
  let ?c = "count args" and ?m = "multiprocess args"
  from assms have "qs = replicate (nat ?m) (Some (?c div ?m))"
    by (simp add: run_load_bounded)
  with assms(2) have "quota_sum qs = ?m * (?c div ?m)"
    by (simp add: quota_sum_replicate)
  then have qs: "quota_sum qs = ?c - ?c mod ?m"
    by (simp add: minus_mod_eq_mult_div)
  have "0 \<le> ?c mod ?m" and "?c mod ?m < ?m"
    using assms(2) by simp_all
  moreover have "(?c mod ?m = 0) = (?m dvd ?c)"
    by (simp add: dvd_eq_mod_eq_0)
  ultimately show ?thesis
    unfolding qs by auto
qed

text \<open>
  Claim C1 says that for a bounded run with total count \<open>C > 0\<close> and \<open>W > 0\<close> workers the
  quotas computed by \<^verbatim>\<open>run_load\<close> add up to exactly \<open>C\<close>, and that no quota is
  negative. For every count below \<open>2 ^ 53\<close>, where the float quotient is exact, the
  code gives every worker \<open>C div W\<close> (\<open>run_load_bounded\<close>), so the quotas add up
  to \<open>W * (C div W)\<close>, which is \<open>C\<close> only when \<open>W\<close> divides \<open>C\<close>
  (\<open>quota_sum_le\<close>). The evaluation below is the spec's own scenario,
  \<^verbatim>\<open>load -c 10 -m 4\<close>: four quotas of 2, eight transactions in all, where the help text
  of \<^verbatim>\<open>-c\<close> promises the "number of transactions to push".
\<close>

theorem run_load_10_4_quotas:
  "run_load \<lparr>count = 10, multiprocess = 4\<rparr> = Inr [Some 2, Some 2, Some 2, Some 2] \<and>
   quota_sum [Some 2, Some 2, Some 2, Some 2] = 8"
proof -
  have "run_load_tx_left \<lparr>count = 10, multiprocess = 4\<rparr> = Inr (Some 2)"
    by (simp add: run_load_tx_left_def float_eval)
  moreover have "ProcessGroup_start 4 (Some (2::int)) = [Some 2, Some 2, Some 2, Some 2]"
    by (simp add: ProcessGroup_start_def numeral_eq_Suc)
  ultimately show ?thesis
    by (simp add: run_load_def quota_sum_def)
qed

lemma body_never_stops:
  "never_stops w \<Longrightarrow> run_load_body ext w = Continue w' \<Longrightarrow> never_stops w'"
  by (auto simp: never_stops_def run_load_body_def Let_def split: option.splits if_splits)

lemma body_no_break:
  "never_stops w \<Longrightarrow> run_load_body ext w \<noteq> Break w'"
  by (auto simp: never_stops_def run_load_body_def Let_def split: option.splits if_splits)

lemma loop_no_break:
  "never_stops w \<Longrightarrow> u_run_load_loop ext n w \<noteq> Break w'"
proof (induction n arbitrary: ext w)
  case 0
  then show ?case by simp
next
  case (Suc n)
  show ?case
  proof (cases "run_load_body (ext 0) w")
    case (Continue w1)
    with Suc.prems have "never_stops w1" by (auto dest: body_never_stops)
    with Suc.IH Continue show ?thesis by simp
  next
    case (Break w1)
    with Suc.prems show ?thesis by (simp add: body_no_break)
  next
    case (Raise e)
    then show ?thesis by simp
  qed
qed

lemma u_run_load_no_break:
  "never_stops \<lparr>tx_left = q, transactions = s\<rparr> \<Longrightarrow> u_run_load w ext n q s \<noteq> Break w'"
  by (simp add: u_run_load_def loop_no_break split: sum.splits)

lemma loop_unbounded_None:
  "u_run_load_loop (\<lambda>i. None) n \<lparr>tx_left = None, transactions = s\<rparr> =
     Continue \<lparr>tx_left = None, transactions = s + int n\<rparr>"
  by (induction n arbitrary: s) (simp_all add: run_load_body_def)

lemma loop_nonpositive:
  "t \<le> 0 \<Longrightarrow> u_run_load_loop (\<lambda>i. None) n \<lparr>tx_left = Some t, transactions = s\<rparr> =
     Continue \<lparr>tx_left = Some (t - int n), transactions = s + int n\<rparr>"
proof (induction n arbitrary: s t)
  case 0 then show ?case by simp
next
  case (Suc n)
  from Suc.prems have "t - 1 \<le> 0" "t - 1 \<noteq> 0" by simp_all
  with Suc.IH[of "t - 1" "s + 1"] show ?case
    by (simp add: run_load_body_def algebra_simps)
qed

lemma run_load_no_count:
  "count args \<le> 0 \<Longrightarrow> run_load args = Inr (replicate (nat (multiprocess args)) None)"
  by (simp add: run_load_def run_load_tx_left_def ProcessGroup_start_def)

lemma run_load_small_count:
  assumes "0 < count args" and "count args < multiprocess args"
    and "2 ^ 54 * count args + multiprocess args < 2 ^ 54 * multiprocess args"
  shows "run_load args = Inr (replicate (nat (multiprocess args)) (Some 0))"
  using assms
  by (simp add: run_load_def run_load_tx_left_def py_int_truediv_below_one
      ProcessGroup_start_def)

lemma small_pool_rounds_down:
  assumes "0 < c" and "c < w" and "w < (2 ^ 54 :: int)"
  shows "2 ^ 54 * c + w < 2 ^ 54 * w"
  using assms by simp

text \<open>
  Claim C8: when the total count is omitted (\<^verbatim>\<open>-c\<close> not given, so the default \<open>0\<close>,
  or given as zero; the code tests \<open>count > 0\<close>), every worker's quota is \<open>None\<close>, and
  the loop of a worker with that quota never reaches \<^verbatim>\<open>break\<close>: whatever the external
  calls do and however many passes are made, the loop has not been left by
  \<^verbatim>\<open>break\<close>; and as long as the external calls return, after \<open>n\<close> passes the worker
  is still looping, having counted \<open>n\<close> more transactions.
\<close>

theorem run_load_unbounded:
  assumes "count args \<le> 0"
  shows "\<exists>qs. run_load args = Inr qs \<and> length qs = nat (multiprocess args) \<and>
           (\<forall>q \<in> set qs. q = None \<and>
              (\<forall>ext n s w'.
                 u_run_load_loop ext n \<lparr>tx_left = q, transactions = s\<rparr> \<noteq> Break w') \<and>
              (\<forall>w ext n s w'. u_run_load w ext n q s \<noteq> Break w') \<and>
              (\<forall>n s.
                 u_run_load_loop (\<lambda>i. None) n \<lparr>tx_left = q, transactions = s\<rparr> =
                   Continue \<lparr>tx_left = None, transactions = s + int n\<rparr>))"
proof -
  have "never_stops \<lparr>tx_left = None, transactions = s\<rparr>" for s
    by (simp add: never_stops_def)
  then have "u_run_load_loop ext n \<lparr>tx_left = None, transactions = s\<rparr> \<noteq> Break w'"
    and "u_run_load w ext n None s \<noteq> Break w'" for w ext n s w'
    by (rule loop_no_break, rule u_run_load_no_break)
  with assms show ?thesis
    by (simp add: run_load_no_count loop_unbounded_None)
qed

theorem run_load_unbounded_witness:
  "count \<lparr>count = 0, multiprocess = 2\<rparr> \<le> 0 \<and>
   run_load \<lparr>count = 0, multiprocess = 2\<rparr> = Inr [None, None] \<and>
   u_run_load_loop (\<lambda>i. None) 3 \<lparr>tx_left = None, transactions = 0\<rparr> =
     Continue \<lparr>tx_left = None, transactions = 3\<rparr> \<and>
   (\<forall>ext w'. u_run_load_loop ext 3 \<lparr>tx_left = None, transactions = 0\<rparr> \<noteq> Break w')"
proof -
  let ?args = "\<lparr>count = 0, multiprocess = 2\<rparr>"
  have h: "count ?args \<le> 0" by simp
  from run_load_unbounded [OF h] obtain qs where
    qs: "run_load ?args = Inr qs" and
    all: "\<forall>q \<in> set qs. q = None \<and>
              (\<forall>ext n s w'.
                 u_run_load_loop ext n \<lparr>tx_left = q, transactions = s\<rparr> \<noteq> Break w') \<and>
              (\<forall>w ext n s w'. u_run_load w ext n q s \<noteq> Break w') \<and>
              (\<forall>n s.
                 u_run_load_loop (\<lambda>i. None) n \<lparr>tx_left = q, transactions = s\<rparr> =
                   Continue \<lparr>tx_left = None, transactions = s + int n\<rparr>)"
    by blast
  have two: "run_load ?args = Inr [None, None]"
    by (simp add: run_load_def run_load_tx_left_def ProcessGroup_start_def numeral_eq_Suc)
  with qs have "qs = [None, None]" by simp
  then have "None \<in> set qs" by simp
  from bspec [OF all this] have nb: "\<forall>ext n s w'.
      u_run_load_loop ext n \<lparr>tx_left = None, transactions = s\<rparr> \<noteq> Break w'"
    and co: "\<forall>n s. u_run_load_loop (\<lambda>i. None) n \<lparr>tx_left = None, transactions = s\<rparr> =
                   Continue \<lparr>tx_left = None, transactions = s + int n\<rparr>"
    by simp_all
  from co have "u_run_load_loop (\<lambda>i. None) 3 \<lparr>tx_left = None, transactions = 0\<rparr> =
     Continue \<lparr>tx_left = None, transactions = 0 + int 3\<rparr>" by blast
  with two nb show ?thesis by simp
qed

text \<open>
  Claim C10 says that in every bounded run with \<open>0 < count < worker count\<close> the quota of
  every worker is \<open>0\<close>, and that such a worker never stops. The quota is
  \<^verbatim>\<open>int(count / worker count)\<close>, and an exact quotient within \<open>2 ^ -54\<close> of \<open>1\<close>
  rounds to the float \<open>1.0\<close>, which gives the quota \<open>1\<close> and a worker that stops
  after one pass, as with the count \<open>2 ^ 60\<close> and \<open>2 ^ 60 + 1\<close> workers. As amended:
  in a bounded run with
  \<open>0 < count < worker count\<close> whose float quotient is below \<open>1.0\<close>, that is with
  \<open>2 ^ 54 * count + worker count < 2 ^ 54 * worker count\<close> (so for every worker count
  below \<open>2 ^ 54\<close>, by \<open>small_pool_rounds_down\<close>), the quota of every worker is \<open>0\<close>.
  Such a worker decrements the quota to \<open>-1\<close> in its first pass, and the test
  \<^verbatim>\<open>tx_left == 0\<close> never succeeds afterwards: the loop is never left by \<^verbatim>\<open>break\<close>, and
  as long as the external calls return, after \<open>n\<close> passes the worker is still looping
  with quota \<open>-n\<close>.
\<close>

theorem run_load_quota_zero:
  assumes "0 < count args" and "count args < multiprocess args"
    and "2 ^ 54 * count args + multiprocess args < 2 ^ 54 * multiprocess args"
  shows "\<exists>qs. run_load args = Inr qs \<and> length qs = nat (multiprocess args) \<and>
           (\<forall>q \<in> set qs. q = Some 0 \<and>
              (\<forall>s. run_load_body None \<lparr>tx_left = q, transactions = s\<rparr> =
                   Continue \<lparr>tx_left = Some (- 1), transactions = s + 1\<rparr>) \<and>
              (\<forall>ext n s w'.
                 u_run_load_loop ext n \<lparr>tx_left = q, transactions = s\<rparr> \<noteq> Break w') \<and>
              (\<forall>w ext n s w'. u_run_load w ext n q s \<noteq> Break w') \<and>
              (\<forall>n s.
                 u_run_load_loop (\<lambda>i. None) n \<lparr>tx_left = q, transactions = s\<rparr> =
                   Continue \<lparr>tx_left = Some (- int n), transactions = s + int n\<rparr>))"
proof -
  have "never_stops \<lparr>tx_left = Some 0, transactions = s\<rparr>" for s
    by (simp add: never_stops_def)
  then have "u_run_load_loop ext n \<lparr>tx_left = Some 0, transactions = s\<rparr> \<noteq> Break w'"
    and "u_run_load w ext n (Some 0) s \<noteq> Break w'" for w ext n s w'
    by (rule loop_no_break, rule u_run_load_no_break)
  moreover have "run_load_body None \<lparr>tx_left = Some 0, transactions = s\<rparr> =
                   Continue \<lparr>tx_left = Some (- 1), transactions = s + 1\<rparr>" for s
    by (simp add: run_load_body_def)
  moreover have "u_run_load_loop (\<lambda>i. None) n \<lparr>tx_left = Some 0, transactions = s\<rparr> =
                   Continue \<lparr>tx_left = Some (- int n), transactions = s + int n\<rparr>" for n s
    using loop_nonpositive [of 0 n s] by simp
  ultimately show ?thesis
    using assms by (simp add: run_load_small_count)
qed

theorem run_load_quota_zero_witness:
  "0 < count \<lparr>count = 3, multiprocess = 4\<rparr> \<and>
   count \<lparr>count = 3, multiprocess = 4\<rparr> < multiprocess \<lparr>count = 3, multiprocess = 4\<rparr> \<and>
   2 ^ 54 * count \<lparr>count = 3, multiprocess = 4\<rparr> + multiprocess \<lparr>count = 3, multiprocess = 4\<rparr>
     < 2 ^ 54 * multiprocess \<lparr>count = 3, multiprocess = 4\<rparr> \<and>
   run_load \<lparr>count = 3, multiprocess = 4\<rparr> = Inr [Some 0, Some 0, Some 0, Some 0] \<and>
   u_run_load_loop (\<lambda>i. None) 5 \<lparr>tx_left = Some 0, transactions = 0\<rparr> =
     Continue \<lparr>tx_left = Some (- 5), transactions = 5\<rparr> \<and>
   (\<forall>ext w'. u_run_load_loop ext 5 \<lparr>tx_left = Some 0, transactions = 0\<rparr> \<noteq> Break w')"
proof -
  let ?args = "\<lparr>count = 3, multiprocess = 4\<rparr>"
  have h1: "0 < count ?args" and h2: "count ?args < multiprocess ?args"
    and h3: "2 ^ 54 * count ?args + multiprocess ?args < 2 ^ 54 * multiprocess ?args"
    by simp_all
  from run_load_quota_zero [OF h1 h2 h3] obtain qs where
    qs: "run_load ?args = Inr qs" and
    all: "\<forall>q \<in> set qs. q = Some 0 \<and>
              (\<forall>s. run_load_body None \<lparr>tx_left = q, transactions = s\<rparr> =
                   Continue \<lparr>tx_left = Some (- 1), transactions = s + 1\<rparr>) \<and>
              (\<forall>ext n s w'.
                 u_run_load_loop ext n \<lparr>tx_left = q, transactions = s\<rparr> \<noteq> Break w') \<and>
              (\<forall>w ext n s w'. u_run_load w ext n q s \<noteq> Break w') \<and>
              (\<forall>n s.
                 u_run_load_loop (\<lambda>i. None) n \<lparr>tx_left = q, transactions = s\<rparr> =
                   Continue \<lparr>tx_left = Some (- int n), transactions = s + int n\<rparr>)"
    by blast
  have "run_load_tx_left ?args = Inr (Some 0)"
    by (simp add: run_load_tx_left_def float_eval)
  moreover have "ProcessGroup_start 4 (Some (0::int)) = [Some 0, Some 0, Some 0, Some 0]"
    by (simp add: ProcessGroup_start_def numeral_eq_Suc)
  ultimately have four: "run_load ?args = Inr [Some 0, Some 0, Some 0, Some 0]"
    by (simp add: run_load_def)
  with qs have "qs = [Some 0, Some 0, Some 0, Some 0]" by simp
  then have "Some 0 \<in> set qs" by simp
  from bspec [OF all this] have nb: "\<forall>ext n s w'.
      u_run_load_loop ext n \<lparr>tx_left = Some 0, transactions = s\<rparr> \<noteq> Break w'"
    and co: "\<forall>n s. u_run_load_loop (\<lambda>i. None) n \<lparr>tx_left = Some 0, transactions = s\<rparr> =
                   Continue \<lparr>tx_left = Some (- int n), transactions = s + int n\<rparr>"
    by simp_all
  from co have "u_run_load_loop (\<lambda>i. None) 5 \<lparr>tx_left = Some 0, transactions = 0\<rparr> =
     Continue \<lparr>tx_left = Some (- int 5), transactions = 0 + int 5\<rparr>" by blast
  with four nb show ?thesis by simp
qed

theorem run_load_quota_one:
  "0 < count \<lparr>count = 2 ^ 60, multiprocess = 2 ^ 60 + 1\<rparr> \<and>
   count \<lparr>count = 2 ^ 60, multiprocess = 2 ^ 60 + 1\<rparr>
     < multiprocess \<lparr>count = 2 ^ 60, multiprocess = 2 ^ 60 + 1\<rparr> \<and>
   run_load_tx_left \<lparr>count = 2 ^ 60, multiprocess = 2 ^ 60 + 1\<rparr> = Inr (Some 1) \<and>
   run_load_body None \<lparr>tx_left = Some 1, transactions = 0\<rparr> =
     Break \<lparr>tx_left = Some 0, transactions = 1\<rparr>"
  by (simp add: run_load_tx_left_def float_eval run_load_body_def)

lemma sum_list_update_int:
  "k < length xs \<Longrightarrow> sum_list (xs[k := x]) = sum_list xs + x - (xs ! k :: int)"
proof (induction xs arbitrary: k)
  case Nil
  then show ?case by simp
next
  case (Cons a xs)
  then show ?case by (cases k) simp_all
qed

lemma advance_transactions:
  "transactions (proc_worker (advance ext (Running w))) =
     transactions w + (if ext = None then 1 else 0)"
  by (auto simp: run_load_body_def Let_def split: option.splits)

lemma snapshot_update:
  "i < length ps \<Longrightarrow>
   snapshot (ps[i := p]) =
     snapshot ps + transactions (proc_worker p) - transactions (proc_worker (ps ! i))"
  by (simp add: snapshot_def map_update sum_list_update_int)

lemma pool_step_snapshot:
  "pool_step ps ps' \<Longrightarrow> snapshot ps' = snapshot ps \<or> snapshot ps' = snapshot ps + 1"
proof (induction rule: pool_step.induct)
  case (pass i ps w ext)
  then show ?case
    by (cases ext) (simp_all add: snapshot_update advance_transactions del: advance.simps)
qed

lemma pool_step_mono: "pool_step ps ps' \<Longrightarrow> snapshot ps \<le> snapshot ps'"
  using pool_step_snapshot by fastforce

lemma pool_run_mono: "pool_step\<^sup>*\<^sup>* ps ps' \<Longrightarrow> snapshot ps \<le> snapshot ps'"
  by (induction rule: rtranclp_induct) (auto dest: pool_step_mono)

lemma advance_ok: "proc_ok q (Running w) \<Longrightarrow> proc_ok q (advance ext (Running w))"
  by (auto simp: run_load_body_def Let_def split: option.splits)

lemma pool_step_ok:
  "pool_step ps ps' \<Longrightarrow> list_all (proc_ok q) ps \<Longrightarrow> list_all (proc_ok q) ps'"
proof (induction rule: pool_step.induct)
  case (pass i ps w ext)
  then have "proc_ok q (Running w)" by (metis list_all_length)
  then have "proc_ok q (advance ext (Running w))" by (rule advance_ok)
  with pass show ?case
    by (auto simp: list_all_length nth_list_update simp del: advance.simps)
qed

lemma pool_run_ok:
  "pool_step\<^sup>*\<^sup>* ps ps' \<Longrightarrow> list_all (proc_ok q) ps \<Longrightarrow> list_all (proc_ok q) ps'"
  by (induction rule: rtranclp_induct) (auto dest: pool_step_ok)

lemma pool_step_length: "pool_step ps ps' \<Longrightarrow> length ps' = length ps"
  by (induction rule: pool_step.induct) simp

lemma pool_run_length: "pool_step\<^sup>*\<^sup>* ps ps' \<Longrightarrow> length ps' = length ps"
  by (induction rule: rtranclp_induct) (auto dest: pool_step_length)

lemma finished_snapshot:
  "list_all (proc_ok q) ps \<Longrightarrow> all_finished ps \<Longrightarrow> snapshot ps = int (length ps) * q"
proof (induction ps)
  case Nil
  then show ?case by (simp add: snapshot_def)
next
  case (Cons p ps)
  then show ?case
    by (cases p) (simp_all add: snapshot_def all_finished_def algebra_simps)
qed

lemma start_pool_ok: "0 < q \<Longrightarrow> list_all (proc_ok q) (start_pool w (replicate n (Some q)))"
  by (simp add: start_pool_def start_worker_def list_all_length split: sum.splits)

lemma start_pool_running:
  "fst (Bigchain w) = Inr () \<Longrightarrow> start_pool w qs = map (\<lambda>q. Running (start_worker q)) qs"
  by (simp add: start_pool_def)

lemma pool_complete_snapshot:
  assumes "0 < q" and "pool_step\<^sup>*\<^sup>* (start_pool w (replicate n (Some q))) ps"
    and "all_finished ps"
  shows "snapshot ps = int n * q"
proof -
  have "list_all (proc_ok q) ps"
    using assms(1,2) by (blast intro: pool_run_ok start_pool_ok)
  moreover have "length ps = n"
    using assms(2) by (simp add: pool_run_length start_pool_def)
  ultimately show ?thesis using assms(3) by (simp add: finished_snapshot)
qed

lemma worker_completes:
  "i < length ps \<Longrightarrow> ps ! i = Running \<lparr>tx_left = Some (int (Suc k)), transactions = s\<rparr> \<Longrightarrow>
   pool_step\<^sup>*\<^sup>* ps (ps[i := Finished \<lparr>tx_left = Some 0, transactions = s + int (Suc k)\<rparr>])"
proof (induction k arbitrary: ps s)
  case 0
  from pool_step.pass[OF "0.prems", of None] show ?case
    by (simp add: run_load_body_def)
next
  case (Suc k)
  let ?ps1 = "ps[i := Running \<lparr>tx_left = Some (int (Suc k)), transactions = s + 1\<rparr>]"
  from pool_step.pass[OF Suc.prems, of None] have "pool_step ps ?ps1"
    by (simp add: run_load_body_def)
  moreover have "pool_step\<^sup>*\<^sup>* ?ps1
      (?ps1[i := Finished \<lparr>tx_left = Some 0, transactions = (s + 1) + int (Suc k)\<rparr>])"
    using Suc.prems(1) by (intro Suc.IH) simp_all
  ultimately show ?case by (simp add: algebra_simps)
qed

lemma pool_completes:
  "pool_step\<^sup>*\<^sup>*
     (fs @ map (\<lambda>q. Running (start_worker q)) (replicate n (Some (int (Suc k)))))
     (fs @ replicate n (Finished \<lparr>tx_left = Some 0, transactions = int (Suc k)\<rparr>))"
proof (induction n arbitrary: fs)
  case 0
  then show ?case by simp
next
  case (Suc n)
  let ?F = "Finished \<lparr>tx_left = Some 0, transactions = int (Suc k)\<rparr>"
  let ?rest = "map (\<lambda>q. Running (start_worker q)) (replicate n (Some (int (Suc k))))"
  let ?ps = "fs @ Running (start_worker (Some (int (Suc k)))) # ?rest"
  have "pool_step\<^sup>*\<^sup>* ?ps
      (?ps[length fs := Finished \<lparr>tx_left = Some 0, transactions = 0 + int (Suc k)\<rparr>])"
    by (rule worker_completes) (simp_all add: start_worker_def nth_append)
  then have "pool_step\<^sup>*\<^sup>* ?ps ((fs @ [?F]) @ ?rest)"
    by (simp add: list_update_append)
  moreover have "pool_step\<^sup>*\<^sup>* ((fs @ [?F]) @ ?rest) ((fs @ [?F]) @ replicate n ?F)"
    by (rule Suc.IH)
  ultimately show ?case by (simp add: replicate_app_Cons_same)
qed

lemma pool_can_complete:
  assumes "fst (Bigchain w) = Inr ()" and "0 < q"
  shows "\<exists>ps. pool_step\<^sup>*\<^sup>* (start_pool w (replicate n (Some q))) ps \<and> all_finished ps"
proof -
  from assms(2) obtain k where q: "q = int (Suc k)"
    by (metis Suc_pred' nat_0_iff not_less_iff_gr_or_eq int_nat_eq less_imp_le zero_less_nat_eq)
  have "all_finished (replicate n (Finished \<lparr>tx_left = Some 0, transactions = int (Suc k)\<rparr>))"
    by (simp add: all_finished_def list_all_length)
  with pool_completes [of "[]" n k] q show ?thesis
    by (auto simp: start_pool_running [OF assms(1)])
qed

text \<open>
  Claim C2 says that the aggregated counter never decreases (\<open>pool_run_mono\<close>: it holds
  for every interleaving of the workers) and that, when all workers of a bounded run with
  total count \<open>C\<close> have completed, it is exactly \<open>C\<close>. In the code a completed run has
  counted \<open>W * (C div W)\<close> (\<open>pool_complete_snapshot\<close>). The evaluation below is the
  run \<^verbatim>\<open>load -c 10 -m 4\<close>: the run can complete, and every completed run has counted 8
  transactions, not 10.
\<close>

theorem load_10_4_final_snapshot:
  "run_load \<lparr>count = 10, multiprocess = 4\<rparr> = Inr (replicate 4 (Some 2)) \<and>
   (\<exists>ps. pool_step\<^sup>*\<^sup>* (start_pool configured_node (replicate 4 (Some 2))) ps \<and>
      all_finished ps) \<and>
   \<not> (\<exists>ps. pool_step\<^sup>*\<^sup>* (start_pool configured_node (replicate 4 (Some 2))) ps \<and>
      all_finished ps \<and> snapshot ps \<noteq> 8)"
proof -
  have "run_load \<lparr>count = 10, multiprocess = 4\<rparr> = Inr (replicate 4 (Some 2))"
    by (simp add: run_load_bounded)
  moreover have "fst (Bigchain configured_node) = Inr ()"
    by (simp add: Bigchain_def configured_node_def node_config_def keypair_get_def called_def)
  then have "\<exists>ps. pool_step\<^sup>*\<^sup>* (start_pool configured_node (replicate 4 (Some 2))) ps \<and>
      all_finished ps"
    by (rule pool_can_complete) simp
  moreover have "snapshot ps = 8"
    if "pool_step\<^sup>*\<^sup>* (start_pool configured_node (replicate 4 (Some 2))) ps"
      and "all_finished ps" for ps
    using pool_complete_snapshot [of 2 configured_node 4 ps] that by simp
  ultimately show ?thesis by blast
qed

section \<open>Properties of the bootstrap sequencer\<close>

lemma Bigchain_ok:
  assumes "keypair_get (config w) ''public'' = Inr pub"
    and "keypair_get (config w) ''private'' = Inr prv"
    and "truthy pub" and "truthy prv"
  shows "Bigchain w = (Inr (), called Connect (called New_Bigchain w))"
  using assms by (simp add: Bigchain_def Let_def called_def)

lemma Bigchain_missing:
  assumes "keypair_get (config w) ''public'' = Inr pub"
    and "keypair_get (config w) ''private'' = Inr prv"
    and "\<not> (truthy prv \<and> truthy pub)"
  shows "Bigchain w = (Inl KeypairNotFoundException, called New_Bigchain w)"
  using assms by (auto simp add: Bigchain_def Let_def called_def)

lemma Bigchain_cases:
  "Bigchain w = (Inr (), called Connect (called New_Bigchain w)) \<or>
   (\<exists>e. Bigchain w = (Inl e, called New_Bigchain w))"
  by (auto simp: Bigchain_def Let_def split: sum.splits prod.splits)

lemma u_run_init_fresh:
  assumes "Bigchain w = (Inr (), called Connect (called New_Bigchain w))"
    and "\<not> db_exists (db w)"
  shows "u_run_init w =
    (Inr (),
     w\<lparr>calls := calls w @ [New_Bigchain, Connect, Init_database, Create_genesis_block],
       db := (db w)\<lparr>db_exists := True, genesis := Suc (genesis (db w))\<rparr>,
       stdout := stdout w @ [''Create genesis block.'', ''Done, have fun!'']\<rparr>)"
  using assms
  by (simp add: u_run_init_def init_database_def create_genesis_block_def called_def
      print_out_def Let_def)

lemma u_run_init_exists:
  assumes "Bigchain w = (Inr (), called Connect (called New_Bigchain w))"
    and "db_exists (db w)"
  shows "u_run_init w =
    (Inl DatabaseAlreadyExists, w\<lparr>calls := calls w @ [New_Bigchain, Connect, Init_database]\<rparr>)"
  using assms
  by (simp add: u_run_init_def init_database_def called_def Let_def)

lemma u_run_init_no_bigchain:
  assumes "Bigchain w = (Inl e, called New_Bigchain w)"
  shows "u_run_init w = (Inl e, w\<lparr>calls := calls w @ [New_Bigchain]\<rparr>)"
  using assms by (simp add: u_run_init_def called_def)

lemma run_init_fresh:
  assumes "keypair_get (config w) ''public'' = Inr pub"
    and "keypair_get (config w) ''private'' = Inr prv"
    and "truthy pub" and "truthy prv"
    and "\<not> db_exists (db w)"
  shows "run_init w =
    (Inr (),
     w\<lparr>calls := calls w @ [New_Bigchain, Connect, Init_database, Create_genesis_block],
       db := (db w)\<lparr>db_exists := True, genesis := Suc (genesis (db w))\<rparr>,
       stdout := stdout w @ [''Create genesis block.'', ''Done, have fun!'']\<rparr>)"
  using u_run_init_fresh [OF Bigchain_ok [OF assms(1-4)] assms(5)]
  by (simp add: run_init_def)

lemma run_init_exists:
  assumes "keypair_get (config w) ''public'' = Inr pub"
    and "keypair_get (config w) ''private'' = Inr prv"
    and "truthy pub" and "truthy prv"
    and "db_exists (db w)"
  shows "run_init w =
    (Inr (),
     w\<lparr>calls := calls w @ [New_Bigchain, Connect, Init_database],
       stderr := stderr w @ [''The database already exists.'',
                             ''If you wish to re-initialize it, first drop it.'']\<rparr>)"
  using u_run_init_exists [OF Bigchain_ok [OF assms(1-4)] assms(5)]
  by (simp add: run_init_def print_err_def)

lemma run_init_no_keypair:
  assumes "keypair_get (config w) ''public'' = Inr pub"
    and "keypair_get (config w) ''private'' = Inr prv"
    and "\<not> (truthy prv \<and> truthy pub)"
  shows "run_init w = (Inl KeypairNotFoundException, w\<lparr>calls := calls w @ [New_Bigchain]\<rparr>)"
  using u_run_init_no_bigchain [OF Bigchain_missing [OF assms]]
  by (simp add: run_init_def)

text \<open>
  Claim C3 says that \<^verbatim>\<open>init\<close>, run twice against the same initially fresh backend,
  creates exactly one genesis record (on the first run only), and that the second run
  completes without error, reporting that the database already exists. This needs the
  node's keypair: \<^verbatim>\<open>_run_init\<close> constructs \<^verbatim>\<open>Bigchain()\<close> first, which "throws an
  exception if [the keypair] does not exist", and \<^verbatim>\<open>run_init\<close> catches only
  \<^verbatim>\<open>DatabaseAlreadyExists\<close>. As amended: for every configuration in which both keys
  are set and every fresh backend, the first run returns, having initialized the database
  and created the one genesis record; the second run returns too (exit status 0), makes no
  call to create a genesis record, and prints the two lines about the existing database
  to standard error.
\<close>

theorem run_init_twice:
  assumes "keypair_get (config w) ''public'' = Inr pub"
    and "keypair_get (config w) ''private'' = Inr prv"
    and "truthy pub" and "truthy prv"
    and "db w = \<lparr>db_exists = False, genesis = 0\<rparr>"
  shows "fst (run_init w) = Inr () \<and>
         genesis (db (snd (run_init w))) = 1 \<and>
         new_calls w (snd (run_init w)) =
           [New_Bigchain, Connect, Init_database, Create_genesis_block] \<and>
         fst (run_init (snd (run_init w))) = Inr () \<and>
         exit_status (run_init (snd (run_init w))) = 0 \<and>
         genesis (db (snd (run_init (snd (run_init w))))) = 1 \<and>
         new_calls (snd (run_init w)) (snd (run_init (snd (run_init w)))) =
           [New_Bigchain, Connect, Init_database] \<and>
         stderr (snd (run_init (snd (run_init w)))) =
           stderr w @ [''The database already exists.'',
                       ''If you wish to re-initialize it, first drop it.'']"
proof -
  let ?w1 = "w\<lparr>calls := calls w @ [New_Bigchain, Connect, Init_database, Create_genesis_block],
       db := (db w)\<lparr>db_exists := True, genesis := Suc (genesis (db w))\<rparr>,
       stdout := stdout w @ [''Create genesis block.'', ''Done, have fun!'']\<rparr>"
  from assms(5) have fresh: "\<not> db_exists (db w)" by simp
  have first: "run_init w = (Inr (), ?w1)"
    by (rule run_init_fresh [OF assms(1-4) fresh])
  have kp1: "keypair_get (config ?w1) ''public'' = Inr pub"
    "keypair_get (config ?w1) ''private'' = Inr prv"
    using assms(1,2) by simp_all
  have "db_exists (db ?w1)" by simp
  from run_init_exists [OF kp1 assms(3,4) this]
  have second: "run_init ?w1 =
    (Inr (),
     ?w1\<lparr>calls := calls ?w1 @ [New_Bigchain, Connect, Init_database],
       stderr := stderr ?w1 @ [''The database already exists.'',
                             ''If you wish to re-initialize it, first drop it.'']\<rparr>)" .
  show ?thesis
    unfolding first second snd_conv fst_conv
    using assms(5) by (simp add: new_calls_def exit_status_def)
qed

theorem run_init_twice_witness:
  "fst (run_init configured_node) = Inr () \<and>
   genesis (db (snd (run_init configured_node))) = 1 \<and>
   fst (run_init (snd (run_init configured_node))) = Inr () \<and>
   genesis (db (snd (run_init (snd (run_init configured_node))))) = 1 \<and>
   stderr (snd (run_init (snd (run_init configured_node)))) =
     [''The database already exists.'', ''If you wish to re-initialize it, first drop it.'']"
proof -
  have "keypair_get (config configured_node) ''public'' = Inr (PStr ''public'')"
    and "keypair_get (config configured_node) ''private'' = Inr (PStr ''secret'')"
    and "truthy (PStr ''public'')" and "truthy (PStr ''secret'')"
    and "db configured_node = \<lparr>db_exists = False, genesis = 0\<rparr>"
    by (simp_all add: configured_node_def node_config_def keypair_get_def fresh_backend_def)
  from run_init_twice [OF this] show ?thesis
    by (simp add: configured_node_def)
qed

theorem run_init_unconfigured:
  "db unconfigured_node = \<lparr>db_exists = False, genesis = 0\<rparr> \<and>
   fst (run_init unconfigured_node) = Inl KeypairNotFoundException \<and>
   genesis (db (snd (run_init unconfigured_node))) = 0 \<and>
   fst (run_init (snd (run_init unconfigured_node))) = Inl KeypairNotFoundException \<and>
   exit_status (run_init (snd (run_init unconfigured_node))) = 1 \<and>
   genesis (db (snd (run_init (snd (run_init unconfigured_node))))) = 0"
  by (simp add: run_init_def u_run_init_def Bigchain_def unconfigured_node_def node_config_def
      keypair_get_def called_def fresh_backend_def exit_status_def)

lemma called_simps [simp]:
  "config (called c w) = config w" "db (called c w) = db w"
  "stdout (called c w) = stdout w" "stderr (called c w) = stderr w"
  "calls (called c w) = calls w @ [c]"
  by (simp_all add: called_def)

lemma print_out_simps [simp]:
  "config (print_out s w) = config w" "db (print_out s w) = db w"
  "stdout (print_out s w) = stdout w @ [s]" "stderr (print_out s w) = stderr w"
  "calls (print_out s w) = calls w"
  by (simp_all add: print_out_def)

lemma print_err_simps [simp]:
  "config (print_err s w) = config w" "db (print_err s w) = db w"
  "stdout (print_err s w) = stdout w" "stderr (print_err s w) = stderr w @ [s]"
  "calls (print_err s w) = calls w"
  by (simp_all add: print_err_def)

lemma new_calls_append [simp]: "calls w' = calls w @ t \<Longrightarrow> new_calls w w' = t"
  by (simp add: new_calls_def)

lemma next_do_Inr [simp]: "next_do (Inr u, w) f = f w"
  by simp

lemma next_do_fst_Inl: "fst r = Inl e \<Longrightarrow> next_do r f = r"
  by (cases r) auto

lemma next_do_fst_Inr: "fst r = Inr u \<Longrightarrow> next_do r f = f (snd r)"
  by (cases r) auto

text \<open>The stages of \<open>run_start\<close> before and after the initialization.\<close>

lemma start_keypair_quiet:
  "\<exists>t. calls (snd (start_keypair env args w)) = calls w @ t \<and>
       set t \<subseteq> {Generate_key_pair,
                 Log_warning ''Keypair found, no need to create one on the fly.''} \<and>
       db (snd (start_keypair env args w)) = db w"
  by (auto simp: start_keypair_def Let_def split: sum.splits)

lemma start_service_quiet:
  "\<exists>t. calls (snd (start_service env args w)) = calls w @ t \<and>
       set t \<subseteq> insert Start_rethinkdb (range (\<lambda>s. Log_info s [])) \<and>
       db (snd (start_service env args w)) = db w \<and>
       config (snd (start_service env args w)) = config w"
  by (auto simp: start_service_def Let_def split: sum.splits)

lemma start_processes_quiet:
  "\<exists>t. calls (snd (start_processes w)) = calls w @ t \<and>
       (t = [] \<and> fst (start_processes w) \<noteq> Inr () \<or>
        (\<exists>l. t = [l, Processes_start] \<and> l \<noteq> Create_genesis_block)) \<and>
       db (snd (start_processes w)) = db w"
  by (auto simp: start_processes_def split: sum.splits)

lemma u_run_init_shape:
  "\<exists>t. calls (snd (u_run_init w)) = calls w @ t \<and>
     (t = [New_Bigchain] \<and> db (snd (u_run_init w)) = db w \<or>
      t = [New_Bigchain, Connect, Init_database] \<and> db_exists (db w) \<and>
        db (snd (u_run_init w)) = db w \<or>
      t = [New_Bigchain, Connect, Init_database, Create_genesis_block] \<and>
        \<not> db_exists (db w) \<and>
        db (snd (u_run_init w)) = (db w)\<lparr>db_exists := True, genesis := Suc (genesis (db w))\<rparr>)"
proof -
  consider "Bigchain w = (Inr (), called Connect (called New_Bigchain w))"
    | e where "Bigchain w = (Inl e, called New_Bigchain w)"
    using Bigchain_cases by blast
  then show ?thesis
  proof cases
    case 1
    show ?thesis
    proof (cases "db_exists (db w)")
      case True
      from u_run_init_exists [OF 1 True] True show ?thesis by simp
    next
      case False
      from u_run_init_fresh [OF 1 False] False show ?thesis by simp
    qed
  next
    case 2
    from u_run_init_no_bigchain [OF 2] show ?thesis by simp
  qed
qed

lemma start_init_snd: "snd (start_init w) = snd (u_run_init w)"
  by (auto simp: start_init_def split: prod.splits sum.splits exn.splits)

lemma start_init_shape:
  "\<exists>t. calls (snd (start_init w)) = calls w @ t \<and>
     (t = [New_Bigchain] \<and> db (snd (start_init w)) = db w \<or>
      t = [New_Bigchain, Connect, Init_database] \<and> db_exists (db w) \<and>
        db (snd (start_init w)) = db w \<or>
      t = [New_Bigchain, Connect, Init_database, Create_genesis_block] \<and>
        \<not> db_exists (db w) \<and>
        db (snd (start_init w)) = (db w)\<lparr>db_exists := True, genesis := Suc (genesis (db w))\<rparr>)"
  unfolding start_init_snd by (rule u_run_init_shape)

lemma run_start_shape:
  "\<exists>t12 t3 t4.
     calls (snd (run_start env args w)) = calls w @ t12 @ t3 @ t4 \<and>
     Create_genesis_block \<notin> set t12 \<and> Create_genesis_block \<notin> set t4 \<and>
     (t3 = [] \<and> db (snd (run_start env args w)) = db w \<or>
      t3 = [New_Bigchain] \<and> db (snd (run_start env args w)) = db w \<or>
      t3 = [New_Bigchain, Connect, Init_database] \<and> db_exists (db w) \<and>
        db (snd (run_start env args w)) = db w \<or>
      t3 = [New_Bigchain, Connect, Init_database, Create_genesis_block] \<and>
        \<not> db_exists (db w) \<and>
        db (snd (run_start env args w)) =
          (db w)\<lparr>db_exists := True, genesis := Suc (genesis (db w))\<rparr>)"
proof -
  define w0 where "w0 = called Setup_logging (print_out (''BigchainDB Version '' @ version env) w)"
  define r1 where "r1 = start_keypair env args w0"
  define r2 where "r2 = start_service env args (snd r1)"
  define r3 where "r3 = start_init (snd r2)"
  define r4 where "r4 = start_processes (snd r3)"
  have run: "run_start env args w = next_do (next_do (next_do r1 (start_service env args))
      start_init) start_processes"
    by (simp add: run_start_def r1_def w0_def)
  obtain t1 where t1: "calls (snd r1) = calls w @ [Setup_logging] @ t1"
      "Create_genesis_block \<notin> set t1" "db (snd r1) = db w"
    using start_keypair_quiet [of env args w0] unfolding r1_def w0_def by auto
  obtain t2 where t2: "calls (snd r2) = calls (snd r1) @ t2"
      "Create_genesis_block \<notin> set t2" "db (snd r2) = db (snd r1)"
    using start_service_quiet [of env args "snd r1"] unfolding r2_def by auto
  obtain t3 where t3: "calls (snd r3) = calls (snd r2) @ t3"
     "t3 = [New_Bigchain] \<and> db (snd r3) = db (snd r2) \<or>
      t3 = [New_Bigchain, Connect, Init_database] \<and> db_exists (db (snd r2)) \<and>
        db (snd r3) = db (snd r2) \<or>
      t3 = [New_Bigchain, Connect, Init_database, Create_genesis_block] \<and>
        \<not> db_exists (db (snd r2)) \<and>
        db (snd r3) = (db (snd r2))\<lparr>db_exists := True, genesis := Suc (genesis (db (snd r2)))\<rparr>"
    using start_init_shape [of "snd r2"] unfolding r3_def by blast
  obtain t4 where t4: "calls (snd r4) = calls (snd r3) @ t4"
      "Create_genesis_block \<notin> set t4" "db (snd r4) = db (snd r3)"
    using start_processes_quiet [of "snd r3"] unfolding r4_def by auto
  show ?thesis
  proof (cases "fst r1")
    case (Inl e)
    then have "run_start env args w = r1"
      by (simp add: run next_do_fst_Inl)
    with t1 show ?thesis
      by (intro exI [of _ "[Setup_logging] @ t1"] exI [of _ "[]"]) simp
  next
    case Inr1: (Inr u1)
    then have run1: "run_start env args w = next_do (next_do r2 start_init) start_processes"
      by (simp add: run next_do_fst_Inr r2_def)
    show ?thesis
    proof (cases "fst r2")
      case (Inl e)
      then have "run_start env args w = r2"
        by (simp add: run1 next_do_fst_Inl)
      with t1 t2 show ?thesis
        by (intro exI [of _ "[Setup_logging] @ t1 @ t2"] exI [of _ "[]"]) simp
    next
      case Inr2: (Inr u2)
      then have run2: "run_start env args w = next_do r3 start_processes"
        by (simp add: run1 next_do_fst_Inr r3_def)
      show ?thesis
      proof (cases "fst r3")
        case (Inl e)
        then have "run_start env args w = r3"
          by (simp add: run2 next_do_fst_Inl)
        with t1 t2 t3 show ?thesis
          by (intro exI [of _ "[Setup_logging] @ t1 @ t2"] exI [of _ t3] exI [of _ "[]"]) auto
      next
        case (Inr u3)
        then have "run_start env args w = r4"
          by (simp add: run2 next_do_fst_Inr r4_def)
        with t1 t2 t3 t4 show ?thesis
          by (intro exI [of _ "[Setup_logging] @ t1 @ t2"] exI [of _ t3] exI [of _ t4]) auto
      qed
    qed
  qed
qed

text \<open>
  Claim C5: during \<^verbatim>\<open>start\<close>, genesis creation is attempted only immediately after a
  fresh database initialization. If the database already exists (so that
  \<^verbatim>\<open>init_database\<close> signals \<^verbatim>\<open>DatabaseAlreadyExists\<close>), \<^verbatim>\<open>start\<close> makes no call
  to create a genesis record and leaves the backend as it was. If \<^verbatim>\<open>start\<close> does call
  genesis creation, the database did not exist, the call comes once, immediately after
  the call of \<^verbatim>\<open>init_database\<close>, and exactly one genesis record is added; otherwise
  the number of genesis records is unchanged. So on a backend that holds no genesis
  record unless its database exists, \<^verbatim>\<open>start\<close> never creates a second one.
\<close>

theorem run_start_genesis_after_fresh_init:
  "(db_exists (db w) \<longrightarrow>
      Create_genesis_block \<notin> set (new_calls w (snd (run_start env args w))) \<and>
      db (snd (run_start env args w)) = db w) \<and>
   (Create_genesis_block \<in> set (new_calls w (snd (run_start env args w))) \<longrightarrow>
      \<not> db_exists (db w) \<and>
      genesis (db (snd (run_start env args w))) = Suc (genesis (db w)) \<and>
      (\<exists>before after.
         new_calls w (snd (run_start env args w)) =
           before @ [Init_database, Create_genesis_block] @ after \<and>
         Create_genesis_block \<notin> set before \<and> Create_genesis_block \<notin> set after)) \<and>
   (Create_genesis_block \<notin> set (new_calls w (snd (run_start env args w))) \<longrightarrow>
      genesis (db (snd (run_start env args w))) = genesis (db w)) \<and>
   ((\<not> db_exists (db w) \<longrightarrow> genesis (db w) = 0) \<longrightarrow>
      genesis (db (snd (run_start env args w))) \<le> max 1 (genesis (db w)))"
proof -
  let ?w' = "snd (run_start env args w)"
  obtain t12 t3 t4 where
    c: "calls ?w' = calls w @ t12 @ t3 @ t4" and
    n12: "Create_genesis_block \<notin> set t12" and n4: "Create_genesis_block \<notin> set t4" and
    sh: "t3 = [] \<and> db ?w' = db w \<or>
      t3 = [New_Bigchain] \<and> db ?w' = db w \<or>
      t3 = [New_Bigchain, Connect, Init_database] \<and> db_exists (db w) \<and> db ?w' = db w \<or>
      t3 = [New_Bigchain, Connect, Init_database, Create_genesis_block] \<and>
        \<not> db_exists (db w) \<and>
        db ?w' = (db w)\<lparr>db_exists := True, genesis := Suc (genesis (db w))\<rparr>"
    using run_start_shape [of env args w] by blast
  from c have nc: "new_calls w ?w' = t12 @ t3 @ t4" by simp
  from sh consider
      (quiet) "Create_genesis_block \<notin> set t3" "db ?w' = db w"
    | (fresh) "t3 = [New_Bigchain, Connect, Init_database, Create_genesis_block]"
        "\<not> db_exists (db w)"
        "db ?w' = (db w)\<lparr>db_exists := True, genesis := Suc (genesis (db w))\<rparr>"
    by auto
  then show ?thesis
  proof cases
    case quiet
    with n12 n4 show ?thesis by (simp add: nc)
  next
    case fresh
    have "t12 @ t3 @ t4 =
        (t12 @ [New_Bigchain, Connect]) @ [Init_database, Create_genesis_block] @ t4"
      by (simp add: fresh(1))
    moreover have "Create_genesis_block \<notin> set (t12 @ [New_Bigchain, Connect])"
      using n12 by simp
    ultimately have "\<exists>before after. t12 @ t3 @ t4 =
        before @ [Init_database, Create_genesis_block] @ after \<and>
        Create_genesis_block \<notin> set before \<and> Create_genesis_block \<notin> set after"
      using n4 by blast
    with fresh show ?thesis by (simp add: nc)
  qed
qed

theorem run_start_genesis_after_fresh_init_witness:
  "db_exists (db existing_node) \<and>
   Create_genesis_block \<notin>
     set (new_calls existing_node (snd (run_start quiet_env plain_start existing_node))) \<and>
   genesis (db (snd (run_start quiet_env plain_start existing_node))) = 1 \<and>
   Create_genesis_block \<in>
     set (new_calls configured_node (snd (run_start quiet_env plain_start configured_node))) \<and>
   \<not> db_exists (db configured_node) \<and>
   genesis (db (snd (run_start quiet_env plain_start configured_node))) = 1"
proof -
  have h: "db_exists (db existing_node)" "genesis (db existing_node) = 1"
    by (simp_all add: existing_node_def)
  have "calls (snd (run_start quiet_env plain_start configured_node)) =
      [Setup_logging, New_Bigchain, Connect, Init_database, Create_genesis_block,
       Log_info ''Starting BigchainDB main process with public key %s'' [PStr ''public''],
       Processes_start]"
    by (simp add: run_start_def plain_start_def configured_node_def start_keypair_def
        start_service_def start_init_def u_run_init_def Bigchain_def init_database_def
        create_genesis_block_def start_processes_def node_config_def keypair_get_def
        fresh_backend_def called_def print_out_def)
  then have g: "Create_genesis_block \<in>
     set (new_calls configured_node (snd (run_start quiet_env plain_start configured_node)))"
    by (simp add: new_calls_def configured_node_def)
  have z: "genesis (db configured_node) = 0"
    by (simp add: configured_node_def fresh_backend_def)
  from run_start_genesis_after_fresh_init [of existing_node quiet_env plain_start]
    run_start_genesis_after_fresh_init [of configured_node quiet_env plain_start] h g z
  show ?thesis by simp
qed

lemma start_keypair_kept:
  assumes "keypair_get (config w) ''private'' = Inr prv"
    and "keypair_get (config w) ''public'' = Inr pub"
    and "\<not> allow_temp_keypair args \<or> truthy prv \<or> truthy pub"
  shows "start_keypair env args w =
    (Inr (),
     if allow_temp_keypair args
     then called (Log_warning ''Keypair found, no need to create one on the fly.'') w
     else w)"
  using assms by (auto simp: start_keypair_def)

lemma start_init_no_keypair:
  assumes "keypair_get (config w) ''public'' = Inr pub"
    and "keypair_get (config w) ''private'' = Inr prv"
    and "\<not> (truthy prv \<and> truthy pub)"
  shows "start_init w =
    (Inl (SystemExit
       ''Can't start BigchainDB, no keypair found. Did you run `bigchaindb configure`?''),
     called New_Bigchain w)"
  using u_run_init_no_bigchain [OF Bigchain_missing [OF assms]]
  by (simp add: start_init_def called_def)

text \<open>
  Claim C6: \<^verbatim>\<open>start\<close> with a missing keypair (the two keys can be read and are not
  both set) where a persisted keypair is required (\<^verbatim>\<open>--dev-allow-temp-keypair\<close> is not
  given, or one of the two keys is set, so that none is generated) fails fatally: the
  command ends in \<^verbatim>\<open>sys.exit\<close> with a non-empty message, the exit status is 1, the
  node's processes are not started, the database is not initialized, and nothing is
  tried twice (at most one construction of \<^verbatim>\<open>Bigchain\<close>, at most one start of
  RethinkDB). The message is the one about the keypair, unless RethinkDB was to be
  started and failed first, which is fatal with its own message.
\<close>

theorem run_start_keypair_missing:
  assumes "keypair_get (config w) ''private'' = Inr prv"
    and "keypair_get (config w) ''public'' = Inr pub"
    and "\<not> (truthy prv \<and> truthy pub)"
    and "\<not> allow_temp_keypair args \<or> truthy prv \<or> truthy pub"
  shows "(\<exists>msg. fst (run_start env args w) = Inl (SystemExit msg) \<and>
           exit_message (run_start env args w) = Some msg \<and>
           msg =
             (if start_rethinkdb args \<and> isl (rethinkdb env)
              then ''Error starting RethinkDB, reason is: '' @ projl (rethinkdb env)
              else ''Can't start BigchainDB, no keypair found. Did you run `bigchaindb configure`?'') \<and>
           msg \<noteq> []) \<and>
    exit_status (run_start env args w) = 1 \<and>
    Processes_start \<notin> set (new_calls w (snd (run_start env args w))) \<and>
    count_list (new_calls w (snd (run_start env args w))) New_Bigchain \<le> 1 \<and>
    count_list (new_calls w (snd (run_start env args w))) Start_rethinkdb \<le> 1 \<and>
    Init_database \<notin> set (new_calls w (snd (run_start env args w))) \<and>
    db (snd (run_start env args w)) = db w \<and>
    config (snd (run_start env args w)) = config w"
proof -
  define w0 where "w0 = called Setup_logging (print_out (''BigchainDB Version '' @ version env) w)"
  define w1 where "w1 = (if allow_temp_keypair args
     then called (Log_warning ''Keypair found, no need to create one on the fly.'') w0
     else w0)"
  have k0: "keypair_get (config w0) ''private'' = Inr prv"
      "keypair_get (config w0) ''public'' = Inr pub"
    using assms(1,2) by (simp_all add: w0_def)
  have s1: "start_keypair env args w0 = (Inr (), w1)"
    unfolding w1_def by (rule start_keypair_kept [OF k0 assms(4)])
  define t1 where "t1 = (if allow_temp_keypair args
     then [Log_warning ''Keypair found, no need to create one on the fly.''] else [])"
  have c1: "config w1 = config w" "db w1 = db w"
    by (simp_all add: w1_def w0_def)
  have t1: "calls w1 = calls w @ Setup_logging # t1"
    "count_list t1 New_Bigchain = 0" "count_list t1 Start_rethinkdb = 0"
    "Processes_start \<notin> set t1" "Init_database \<notin> set t1"
    by (simp_all add: w1_def w0_def t1_def)
  have run: "run_start env args w =
      next_do (next_do (start_service env args w1) start_init) start_processes"
    by (simp only: run_start_def w0_def [symmetric] s1 next_do.simps)
  consider (fails) reason where "start_rethinkdb args" "rethinkdb env = Inl reason"
    | (starts) pid where "start_rethinkdb args" "rethinkdb env = Inr pid"
    | (skipped) "\<not> start_rethinkdb args"
    by (cases "rethinkdb env") auto
  then show ?thesis
  proof cases
    case fails
    then have "run_start env args w =
        (Inl (SystemExit (''Error starting RethinkDB, reason is: '' @ reason)),
         called Start_rethinkdb w1)"
      by (simp add: run start_service_def)
    with fails t1 c1(1,2) show ?thesis
      by (auto simp: exit_status_def exit_message_def new_calls_def)
  next
    case starts
    define w2 where "w2 = called (Log_info (''RethinkDB started with PID '' @ pid) [])
      (called Start_rethinkdb w1)"
    have k2: "keypair_get (config w2) ''public'' = Inr pub"
      "keypair_get (config w2) ''private'' = Inr prv"
      using assms(1,2) c1(1) by (simp_all add: w2_def)
    from starts have "run_start env args w = next_do (start_init w2) start_processes"
      by (simp add: run start_service_def w2_def)
    then have "run_start env args w =
      (Inl (SystemExit
       ''Can't start BigchainDB, no keypair found. Did you run `bigchaindb configure`?''),
       called New_Bigchain w2)"
      by (simp add: start_init_no_keypair [OF k2 assms(3)])
    with starts t1 c1(1,2) show ?thesis
      by (auto simp: exit_status_def exit_message_def new_calls_def w2_def)
  next
    case skipped
    have k1: "keypair_get (config w1) ''public'' = Inr pub"
      "keypair_get (config w1) ''private'' = Inr prv"
      using assms(1,2) c1(1) by simp_all
    from skipped have "run_start env args w = next_do (start_init w1) start_processes"
      by (simp add: run start_service_def)
    then have "run_start env args w =
      (Inl (SystemExit
       ''Can't start BigchainDB, no keypair found. Did you run `bigchaindb configure`?''),
       called New_Bigchain w1)"
      by (simp add: start_init_no_keypair [OF k1 assms(3)])
    with skipped t1 c1(1,2) show ?thesis
      by (auto simp: exit_status_def exit_message_def new_calls_def)
  qed
qed

theorem run_start_keypair_missing_witness:
  "fst (run_start quiet_env plain_start unconfigured_node) =
     Inl (SystemExit
       ''Can't start BigchainDB, no keypair found. Did you run `bigchaindb configure`?'') \<and>
   exit_status (run_start quiet_env plain_start unconfigured_node) = 1 \<and>
   Processes_start \<notin>
     set (new_calls unconfigured_node (snd (run_start quiet_env plain_start unconfigured_node))) \<and>
   fst (run_start quiet_env dev_start half_configured_node) =
     Inl (SystemExit
       ''Can't start BigchainDB, no keypair found. Did you run `bigchaindb configure`?'') \<and>
   exit_status (run_start quiet_env dev_start half_configured_node) = 1 \<and>
   Processes_start \<notin>
     set (new_calls half_configured_node
            (snd (run_start quiet_env dev_start half_configured_node)))"
proof -
  have u: "keypair_get (config unconfigured_node) ''private'' = Inr PNone"
      "keypair_get (config unconfigured_node) ''public'' = Inr PNone"
      "\<not> (truthy PNone \<and> truthy PNone)"
      "\<not> allow_temp_keypair plain_start \<or> truthy PNone \<or> truthy PNone"
    by (simp_all add: unconfigured_node_def node_config_def keypair_get_def plain_start_def)
  have h: "keypair_get (config half_configured_node) ''private'' = Inr PNone"
      "keypair_get (config half_configured_node) ''public'' = Inr (PStr ''public'')"
      "\<not> (truthy PNone \<and> truthy (PStr ''public''))"
      "\<not> allow_temp_keypair dev_start \<or> truthy PNone \<or> truthy (PStr ''public'')"
    by (simp_all add: half_configured_node_def node_config_def keypair_get_def)
  have e: "\<not> isl (rethinkdb quiet_env)" "\<not> start_rethinkdb plain_start"
    by (simp_all add: quiet_env_def plain_start_def)
  from run_start_keypair_missing [OF u, of quiet_env]
    run_start_keypair_missing [OF h, of quiet_env] e
  show ?thesis by auto
qed

section \<open>Properties of the topology administrator\<close>

lemma run_topology_calls:
  "calls (snd (run_topology env c w)) = calls w @ [Connect, Admin c]"
  by (cases c)
    (auto simp: run_set_shards_def run_set_replicas_def run_add_replicas_def
      run_remove_replicas_def Let_def split: option.splits exn.splits)

text \<open>
  Claim C4 says that \<^verbatim>\<open>set-replicas\<close> and \<^verbatim>\<open>set-shards\<close> reject every \<open>n \<le> 0\<close>
  before any interaction with the backend. The code has no such check: the parser takes
  any integer (\<^verbatim>\<open>type=int\<close>), and the two commands connect and pass \<open>n\<close> on. As
  amended: for every integer \<open>n\<close>, non-positive ones included, each of the two commands
  connects to the backend and calls it with \<open>n\<close> as given; a rejection can only come
  from the backend.
\<close>

theorem set_counts_reach_backend:
  "new_calls w (snd (run_set_replicas env n w)) = [Connect, Admin (Set_replicas n)] \<and>
   new_calls w (snd (run_set_shards env n w)) = [Connect, Admin (Set_shards n)]"
  using run_topology_calls [of env "Set_replicas n" w]
    run_topology_calls [of env "Set_shards n" w]
  by simp

theorem set_replicas_minus_one:
  "(- 1 :: int) \<le> 0 \<and>
   new_calls configured_node (snd (run_set_replicas quiet_env (- 1) configured_node)) =
     [Connect, Admin (Set_replicas (- 1))] \<and>
   new_calls configured_node (snd (run_set_shards quiet_env (- 1) configured_node)) =
     [Connect, Admin (Set_shards (- 1))] \<and>
   fst (run_set_replicas quiet_env (- 1) configured_node) = Inr () \<and>
   stderr (snd (run_set_replicas quiet_env (- 1) configured_node)) = []"
  by (simp add: run_set_replicas_def run_set_shards_def quiet_env_def configured_node_def
      new_calls_def called_def)

text \<open>
  What the handlers of the four commands do catch: an \<^verbatim>\<open>OperationError\<close> in each of
  them, and a \<^verbatim>\<open>NotImplementedError\<close> in \<^verbatim>\<open>add-replicas\<close> and
  \<^verbatim>\<open>remove-replicas\<close>, is printed to standard error; the command returns (exit status
  0), and the backend was called once.
\<close>

lemma topology_errors_reported:
  assumes "admin env c = Some (OperationError m) \<or>
           replica_set_call c \<and> admin env c = Some (NotImplementedError m)"
  shows "fst (run_topology env c w) = Inr () \<and>
         exit_status (run_topology env c w) = 0 \<and>
         stderr (snd (run_topology env c w)) = stderr w @ [m] \<and>
         stdout (snd (run_topology env c w)) = stdout w \<and>
         new_calls w (snd (run_topology env c w)) = [Connect, Admin c]"
  using assms
  by (cases c)
    (auto simp: run_set_shards_def run_set_replicas_def run_add_replicas_def
      run_remove_replicas_def exit_status_def Let_def)

lemma topology_errors_reported_example:
  "fst (run_topology rejecting_env (Set_shards 2) configured_node) = Inr () \<and>
   stderr (snd (run_topology rejecting_env (Set_shards 2) configured_node)) = [''rejected''] \<and>
   exit_status (run_topology rejecting_env (Set_shards 2) configured_node) = 0 \<and>
   fst (run_topology unsupporting_env (Add_replicas [''localhost:27017'']) configured_node) =
     Inr () \<and>
   stderr (snd (run_topology unsupporting_env (Add_replicas [''localhost:27017''])
     configured_node)) = [''unsupported'']"
proof -
  have a: "admin rejecting_env (Set_shards 2) = Some (OperationError ''rejected'') \<or>
      replica_set_call (Set_shards 2) \<and>
      admin rejecting_env (Set_shards 2) = Some (NotImplementedError ''rejected'')"
    by (simp add: rejecting_env_def)
  have b: "admin unsupporting_env (Add_replicas [''localhost:27017'']) =
        Some (OperationError ''unsupported'') \<or>
      replica_set_call (Add_replicas [''localhost:27017'']) \<and>
      admin unsupporting_env (Add_replicas [''localhost:27017'']) =
        Some (NotImplementedError ''unsupported'')"
    by (simp add: unsupporting_env_def)
  have s: "stderr configured_node = []" by (simp add: configured_node_def)
  from topology_errors_reported [OF a, of configured_node]
    topology_errors_reported [OF b, of configured_node] s
  show ?thesis by simp
qed

text \<open>
  Claim C7 says that for each of the four topology commands an \<^verbatim>\<open>OperationError\<close> or
  a \<^verbatim>\<open>NotImplementedError\<close> of the backend call is reported on standard error, that the
  process does not end with a non-zero status, and that the call is not retried. The
  handlers of \<^verbatim>\<open>add-replicas\<close> and \<^verbatim>\<open>remove-replicas\<close> do that for both exceptions
  (\<open>topology_errors_reported\<close>); those of \<^verbatim>\<open>set-shards\<close> and \<^verbatim>\<open>set-replicas\<close>
  leave \<^verbatim>\<open>NotImplementedError\<close> out. The evaluation below is \<^verbatim>\<open>set-shards 2\<close> and
  \<^verbatim>\<open>set-replicas 2\<close> on a backend whose call raises \<^verbatim>\<open>NotImplementedError\<close>: the
  exception escapes the command, nothing is printed to standard error, and the process
  ends with status 1.
\<close>

theorem set_shards_unsupported_escapes:
  "admin unsupporting_env (Set_shards 2) = Some (NotImplementedError ''unsupported'') \<and>
   fst (run_topology unsupporting_env (Set_shards 2) configured_node) =
     Inl (NotImplementedError ''unsupported'') \<and>
   exit_status (run_topology unsupporting_env (Set_shards 2) configured_node) = 1 \<and>
   stderr (snd (run_topology unsupporting_env (Set_shards 2) configured_node)) = [] \<and>
   fst (run_topology unsupporting_env (Set_replicas 2) configured_node) =
     Inl (NotImplementedError ''unsupported'') \<and>
   exit_status (run_topology unsupporting_env (Set_replicas 2) configured_node) = 1"
  by (simp add: run_set_shards_def run_set_replicas_def unsupporting_env_def quiet_env_def
      configured_node_def exit_status_def called_def)

section \<open>Properties of \<open>show-config\<close>\<close>

lemma map_of_alist_set: "map_of (alist_set k v kvs) = (map_of kvs)(k \<mapsto> v)"
  by (induction kvs) (auto simp: fun_eq_iff)

lemma alist_set_twice: "alist_set k v (alist_set k v' kvs) = alist_set k v kvs"
  by (induction kvs) auto

lemma filter_alist_set:
  "k \<noteq> k0 \<Longrightarrow>
   filter (\<lambda>kv. fst kv \<noteq> k0) (alist_set k v kvs) =
     alist_set k v (filter (\<lambda>kv. fst kv \<noteq> k0) kvs)"
  by (induction kvs) auto

lemma map_of_filter_other:
  "k \<noteq> k0 \<Longrightarrow> map_of (filter (\<lambda>kv. fst kv \<noteq> k0) kvs) k = map_of kvs k"
  by (induction kvs) auto

lemma getitem_Inr: "getitem d k = Inr v \<Longrightarrow> \<exists>kvs. d = PDict kvs \<and> map_of kvs k = Some v"
  by (cases d) (auto split: option.splits)

lemma redacted_private_key:
  assumes "keypair_get cfg ''private'' = Inr k" and "truthy k" and "truthy k'"
    and "keypair_set cfg ''private'' k' = Inr cfg'"
  shows "redacted cfg' = redacted cfg"
proof -
  from assms(1) obtain kp where kp: "getitem cfg ''keypair'' = Inr kp"
      "getitem kp ''private'' = Inr k"
    by (cases "getitem cfg ''keypair''") (auto simp: keypair_get_def)
  from getitem_Inr [OF kp(1)] obtain kvs where
    kvs: "cfg = PDict kvs" "map_of kvs ''keypair'' = Some kp" by blast
  from getitem_Inr [OF kp(2)] obtain ps where
    ps: "kp = PDict ps" "map_of ps ''private'' = Some k" by blast
  from assms(4) have cfg': "cfg' =
      PDict (alist_set ''keypair'' (PDict (alist_set ''private'' k' ps)) kvs)"
    by (simp add: keypair_set_def kvs ps)
  show ?thesis
  proof (cases "map_of kvs ''CONFIGURED''")
    case None
    then show ?thesis
      by (simp add: redacted_def cfg' kvs map_of_alist_set)
  next
    case (Some c)
    then show ?thesis
      using assms(2,3)
      by (simp add: redacted_def cfg' kvs ps keypair_get_def keypair_set_def map_of_alist_set
          filter_alist_set map_of_filter_other alist_set_twice)
  qed
qed

lemma redacted_shows_mask:
  assumes "redacted cfg = Inr r"
  shows "\<exists>k. keypair_get cfg ''private'' = Inr k \<and>
    keypair_get r ''private'' = Inr (if truthy k then PStr (replicate 45 CHR ''x'') else PNone)"
proof -
  from assms obtain c1 where c1: "delitem cfg ''CONFIGURED'' = Inr c1"
    by (cases "delitem cfg ''CONFIGURED''") (auto simp: redacted_def)
  then obtain kvs where kvs: "cfg = PDict kvs"
    by (cases cfg) auto
  from c1 kvs have c1': "c1 = PDict (filter (\<lambda>kv. fst kv \<noteq> ''CONFIGURED'') kvs)"
    by (auto split: option.splits)
  from assms c1 obtain k where k: "keypair_get c1 ''private'' = Inr k"
    by (cases "keypair_get c1 ''private''") (auto simp: redacted_def)
  with assms c1 have r: "keypair_set c1 ''private''
       (if truthy k then PStr (replicate 45 CHR ''x'') else PNone) = Inr r"
    by (simp add: redacted_def)
  from k obtain kp where kp: "getitem c1 ''keypair'' = Inr kp" "getitem kp ''private'' = Inr k"
    by (cases "getitem c1 ''keypair''") (auto simp: keypair_get_def)
  from getitem_Inr [OF kp(2)] obtain ps where ps: "kp = PDict ps" by blast
  from kp(1) c1' have "getitem cfg ''keypair'' = Inr kp"
    by (simp add: kvs map_of_filter_other split: option.splits)
  with kp(2) have "keypair_get cfg ''private'' = Inr k"
    by (simp add: keypair_get_def)
  moreover from r kp(1) ps c1' have
    "keypair_get r ''private'' = Inr (if truthy k then PStr (replicate 45 CHR ''x'') else PNone)"
    by (auto simp: keypair_set_def keypair_get_def map_of_alist_set)
  ultimately show ?thesis by blast
qed

text \<open>
  Claim C9: two configurations that differ only in the value of a private key that is set
  make \<^verbatim>\<open>show-config\<close> print the same text (and end the same way), whatever
  \<^verbatim>\<open>json.dumps\<close> does with the value it is given. The printed text does not contain the
  key in this sense: what is dumped holds 45 times \<open>x\<close> in the key's place.
\<close>

theorem show_config_hides_private_key:
  assumes "keypair_get (config w) ''private'' = Inr k" and "truthy k" and "truthy k'"
    and "keypair_set (config w) ''private'' k' = Inr cfg'"
  shows "fst (run_show_config env (w\<lparr>config := cfg'\<rparr>)) = fst (run_show_config env w) \<and>
         stdout (snd (run_show_config env (w\<lparr>config := cfg'\<rparr>))) =
           stdout (snd (run_show_config env w)) \<and>
         (\<forall>shown. redacted (config w) = Inr shown \<longrightarrow>
            stdout (snd (run_show_config env w)) = stdout w @ [json_dumps env shown] \<and>
            keypair_get shown ''private'' = Inr (PStr (replicate 45 CHR ''x'')))"
proof -
  have same: "redacted cfg' = redacted (config w)"
    by (rule redacted_private_key [OF assms])
  have "keypair_get shown ''private'' = Inr (PStr (replicate 45 CHR ''x''))"
    if "redacted (config w) = Inr shown" for shown
    using redacted_shows_mask [OF that] assms(1,2) by auto
  then show ?thesis
    by (auto simp: run_show_config_def same split: sum.splits)
qed

theorem show_config_hides_private_key_witness:
  "stdout (snd (run_show_config echo_env rekeyed_node)) =
     stdout (snd (run_show_config echo_env configured_node)) \<and>
   stdout (snd (run_show_config echo_env configured_node)) =
     [''xxxxxxxxxxxxxxxxxxxxxxxxxxxxxxxxxxxxxxxxxxxxx'']"
proof -
  have a: "keypair_get (config configured_node) ''private'' = Inr (PStr ''secret'')"
      "truthy (PStr ''secret'')" "truthy (PStr ''another secret'')"
      "keypair_set (config configured_node) ''private'' (PStr ''another secret'') =
         Inr (config rekeyed_node)"
    by (simp_all add: configured_node_def rekeyed_node_def node_config_def keypair_get_def
        keypair_set_def)
  have b: "configured_node\<lparr>config := config rekeyed_node\<rparr> = rekeyed_node"
    by (simp add: rekeyed_node_def)
  have x: "replicate 45 CHR ''x'' = ''xxxxxxxxxxxxxxxxxxxxxxxxxxxxxxxxxxxxxxxxxxxxx''"
    by (simp add: numeral_eq_Suc)
  have c: "stdout (snd (run_show_config echo_env configured_node)) =
     [''xxxxxxxxxxxxxxxxxxxxxxxxxxxxxxxxxxxxxxxxxxxxx'']"
    by (simp add: x run_show_config_def redacted_def configured_node_def node_config_def
        keypair_get_def keypair_set_def echo_env_def quiet_env_def print_out_def)
  from show_config_hides_private_key [OF a, of echo_env] b c show ?thesis
    by simp
qed

end
